theory Spec2Isabelle
  imports Complex_Main "HOL-Library.Product_Lexorder"
begin

section \<open>Python strings\<close>

text \<open>
  A Python \<^verbatim>\<open>str\<close> is a sequence of Unicode code points, so a string is a list of
  numbers: \<^verbatim>\<open>"\<euro>"\<close> is the one-element list \<open>[8364]\<close>. ASCII literals are written
  \<open>str ''...''\<close>.

  Whitespace is the set that \<^verbatim>\<open>str.strip()\<close> and the pattern \<^verbatim>\<open>\s\<close> use
  (\<^verbatim>\<open>str.isspace\<close>). Decimal digits and case mapping are written out for Basic Latin and
  Latin-1 (code points below 256), where \<^verbatim>\<open>\d\<close> is \<open>0-9\<close>; the Unicode tables
  beyond that range are not part of this development, and such code points pass through
  \<open>lower\<close> unchanged and are not digits.
\<close>

type_synonym cp = nat
type_synonym pystr = "cp list"

definition str :: "string \<Rightarrow> pystr" where
  "str s = map of_char s"

definition is_space :: "cp \<Rightarrow> bool" where
  "is_space c = ((9 \<le> c \<and> c \<le> 13) \<or> (28 \<le> c \<and> c \<le> 32) \<or> c = 133 \<or> c = 160 \<or>
     c = 5760 \<or> (8192 \<le> c \<and> c \<le> 8202) \<or> c = 8232 \<or> c = 8233 \<or> c = 8239 \<or>
     c = 8287 \<or> c = 12288)"

definition is_digit :: "cp \<Rightarrow> bool" where
  "is_digit c = (48 \<le> c \<and> c \<le> 57)"

definition lower_cp :: "cp \<Rightarrow> cp" where
  "lower_cp c = (if (65 \<le> c \<and> c \<le> 90) \<or> (192 \<le> c \<and> c \<le> 214) \<or> (216 \<le> c \<and> c \<le> 222)
                 then c + 32 else c)"

definition lower :: "pystr \<Rightarrow> pystr" where
  "lower s = map lower_cp s"

text \<open>\<^verbatim>\<open>s.strip()\<close> and \<^verbatim>\<open>s.strip(chars)\<close>.\<close>

definition strip_by :: "(cp \<Rightarrow> bool) \<Rightarrow> pystr \<Rightarrow> pystr" where
  "strip_by p s = rev (dropWhile p (rev (dropWhile p s)))"

definition strip :: "pystr \<Rightarrow> pystr" where
  "strip s = strip_by is_space s"

definition strip_chars :: "pystr \<Rightarrow> pystr \<Rightarrow> pystr" where
  "strip_chars cs s = strip_by (\<lambda>c. c \<in> set cs) s"

text \<open>\<^verbatim>\<open>sep.join(parts)\<close>.\<close>

fun join :: "pystr \<Rightarrow> pystr list \<Rightarrow> pystr" where
  "join sep [] = []"
| "join sep [p] = p"
| "join sep (p # q # ps) = p @ sep @ join sep (q # ps)"

datatype py_error = ValueError | KeyError | IndexError | ZeroDivisionError | AttributeError

text \<open>
  \<^verbatim>\<open>int(t)\<close> on a string of decimal digits. The program applies it to regular-expression
  groups only; on any other string this definition raises, which is stricter than
  Python (Python also accepts signs, underscores and surrounding whitespace).
\<close>

definition dec :: "pystr \<Rightarrow> int" where
  "dec t = foldl (\<lambda>a c. 10 * a + int (c - 48)) 0 t"

definition py_int :: "pystr \<Rightarrow> py_error + int" where
  "py_int t = (if t \<noteq> [] \<and> list_all is_digit t then Inr (dec t) else Inl ValueError)"

definition bind_err :: "py_error + 'a \<Rightarrow> ('a \<Rightarrow> py_error + 'b) \<Rightarrow> py_error + 'b" where
  "bind_err r f = (case r of Inl e \<Rightarrow> Inl e | Inr v \<Rightarrow> f v)"

section \<open>Regular expressions\<close>

text \<open>
  The patterns of the program use character classes, greedy repetition of a class,
  optional non-capturing groups, capturing groups, alternation and the anchors
  \<^verbatim>\<open>^\<close> and \<^verbatim>\<open>$\<close>. The matcher is the backtracking one: it returns every way to
  match, in the order Python's engine tries them (a greedy repetition longest first,
  an optional group taken before skipped, the left alternative before the right), and
  \<^verbatim>\<open>re.match\<close> takes the first. A state is the rest of the subject and the groups
  captured so far.
\<close>

datatype citem = Dig | Spc | Rng cp cp | Chr cp

fun in_item :: "citem \<Rightarrow> cp \<Rightarrow> bool" where
  "in_item Dig c = is_digit c"
| "in_item Spc c = is_space c"
| "in_item (Rng lo hi) c = (lo \<le> c \<and> c \<le> hi)"
| "in_item (Chr x) c = (c = x)"

definition in_cls :: "citem list \<Rightarrow> cp \<Rightarrow> bool" where
  "in_cls cs c = list_ex (\<lambda>i. in_item i c) cs"

datatype rx =
    Eps
  | Bol
  | Eol
  | Cls "citem list"
  | Rep "citem list" nat "nat option"
  | Opt rx
  | Grp rx
  | Cat rx rx
  | Alt rx rx

type_synonym mstate = "pystr \<times> pystr list"

fun rx_run :: "pystr \<Rightarrow> rx \<Rightarrow> mstate \<Rightarrow> mstate list" where
  "rx_run s Eps st = [st]"
| "rx_run s Bol (rest, caps) = (if length rest = length s then [(rest, caps)] else [])"
| "rx_run s Eol (rest, caps) = (if rest = [] \<or> rest = [10] then [(rest, caps)] else [])"
| "rx_run s (Cls cs) (rest, caps) =
     (case rest of [] \<Rightarrow> [] | c # r \<Rightarrow> if in_cls cs c then [(r, caps)] else [])"
| "rx_run s (Rep cs m n) (rest, caps) =
     (let avail = length (takeWhile (in_cls cs) rest);
          hi = (case n of None \<Rightarrow> avail | Some k \<Rightarrow> min k avail)
      in map (\<lambda>k. (drop k rest, caps)) (rev [m..<Suc hi]))"
| "rx_run s (Opt r) st = rx_run s r st @ [st]"
| "rx_run s (Grp r) (rest, caps) =
     map (\<lambda>(rest', caps'). (rest', caps' @ [take (length rest - length rest') rest]))
         (rx_run s r (rest, caps))"
| "rx_run s (Cat a b) st = concat (map (rx_run s b) (rx_run s a st))"
| "rx_run s (Alt a b) st = rx_run s a st @ rx_run s b st"

fun seq :: "rx list \<Rightarrow> rx" where
  "seq [] = Eps"
| "seq (r # rs) = Cat r (seq rs)"

definition lit :: "string \<Rightarrow> rx" where
  "lit s = seq (map (\<lambda>c. Cls [Chr (of_char c)]) s)"

text \<open>\<^verbatim>\<open>re.match(r, s)\<close>: the groups of the first match, or \<open>None\<close>.\<close>

definition re_match :: "rx \<Rightarrow> pystr \<Rightarrow> pystr list option" where
  "re_match r s = (case rx_run s r (s, []) of [] \<Rightarrow> None | (rest, caps) # _ \<Rightarrow> Some caps)"

text \<open>\<^verbatim>\<open>m.group(k)\<close>, \<open>k \<ge> 1\<close>.\<close>

definition group :: "pystr list \<Rightarrow> nat \<Rightarrow> py_error + pystr" where
  "group caps k = (if 1 \<le> k \<and> k \<le> length caps then Inr (caps ! (k - 1)) else Inl IndexError)"

section \<open>Date parsing (factuser-v2.py, lines 65-117)\<close>

text \<open>\<^verbatim>\<open>_strip_accents\<close>: the translation table of line 66.\<close>

definition strip_accents_cp :: "cp \<Rightarrow> cp" where
  "strip_accents_cp c =
     (if c = 225 then 97 else if c = 233 then 101 else if c = 237 then 105
      else if c = 243 then 111 else if c = 250 then 117 else if c = 252 then 117
      else if c = 193 then 65 else if c = 201 then 69 else if c = 205 then 73
      else if c = 211 then 79 else if c = 218 then 85 else if c = 220 then 85
      else if c = 241 then 110 else if c = 209 then 78 else c)"

definition strip_accents :: "pystr \<Rightarrow> pystr" where
  "strip_accents s = map strip_accents_cp s"

text \<open>The dictionary literal \<^verbatim>\<open>MONTHS\<close> of lines 78-85, in source order.\<close>

definition MONTHS_items :: "(string \<times> int) list" where
  "MONTHS_items =
    [(''jan'',1),(''january'',1),(''feb'',2),(''february'',2),(''mar'',3),(''march'',3),
     (''apr'',4),(''april'',4),(''may'',5),
     (''jun'',6),(''june'',6),(''jul'',7),(''july'',7),(''aug'',8),(''august'',8),
     (''sep'',9),(''sept'',9),(''september'',9),
     (''oct'',10),(''october'',10),(''nov'',11),(''november'',11),(''dec'',12),(''december'',12),
     (''ene'',1),(''enero'',1),(''feb'',2),(''febrero'',2),(''mar'',3),(''marzo'',3),
     (''abr'',4),(''abril'',4),(''mayo'',5),
     (''junio'',6),(''julio'',7),(''ago'',8),(''agosto'',8),(''set'',9),(''sept'',9),
     (''septiembre'',9),(''setiembre'',9),
     (''octubre'',10),(''noviembre'',11),(''dic'',12),(''diciembre'',12)]"

text \<open>A later entry of a dictionary literal replaces an earlier one with the same key.\<close>

definition MONTHS :: "pystr \<rightharpoonup> int" where
  "MONTHS = map_of (rev (map (\<lambda>(k, v). (str k, v)) MONTHS_items))"

text \<open>\<^verbatim>\<open>re.sub(r'[,\t]+', ' ', s)\<close>: every maximal run of commas and tabs becomes one space.\<close>

fun sub_commas_tabs :: "bool \<Rightarrow> pystr \<Rightarrow> pystr" where
  "sub_commas_tabs in_run [] = []"
| "sub_commas_tabs in_run (c # cs) =
     (if c = 44 \<or> c = 9
      then (if in_run then sub_commas_tabs True cs else 32 # sub_commas_tabs True cs)
      else c # sub_commas_tabs False cs)"

definition sep_cls :: "citem list" where
  "sep_cls = [Chr (of_char CHR ''.''), Chr (of_char CHR ''-''), Chr (of_char CHR ''/'')]"

definition mon_cls :: "citem list" where
  "mon_cls = [Rng (of_char CHR ''a'') (of_char CHR ''z''), Chr (of_char CHR ''.'')]"

text \<open>Line 93: \<^verbatim>\<open>^\s*(\d{4})[.\-\/](\d{1,2})[.\-\/](\d{1,2})\s*$\<close>\<close>

definition rx_ymd :: rx where
  "rx_ymd = seq [Bol, Rep [Spc] 0 None, Grp (Rep [Dig] 4 (Some 4)), Cls sep_cls,
                 Grp (Rep [Dig] 1 (Some 2)), Cls sep_cls, Grp (Rep [Dig] 1 (Some 2)),
                 Rep [Spc] 0 None, Eol]"

text \<open>Line 95: \<^verbatim>\<open>^\s*(\d{1,2})[.\-\/](\d{1,2})[.\-\/](\d{2,4})\s*$\<close>\<close>

definition rx_dmy :: rx where
  "rx_dmy = seq [Bol, Rep [Spc] 0 None, Grp (Rep [Dig] 1 (Some 2)), Cls sep_cls,
                 Grp (Rep [Dig] 1 (Some 2)), Cls sep_cls, Grp (Rep [Dig] 2 (Some 4)),
                 Rep [Spc] 0 None, Eol]"

text \<open>Line 100: \<^verbatim>\<open>^\s*(\d{1,2})\s+([a-z\.]+)\s+(\d{2,4})\s*$\<close>\<close>

definition rx_d_mon_y :: rx where
  "rx_d_mon_y = seq [Bol, Rep [Spc] 0 None, Grp (Rep [Dig] 1 (Some 2)), Rep [Spc] 1 None,
                     Grp (Rep mon_cls 1 None), Rep [Spc] 1 None, Grp (Rep [Dig] 2 (Some 4)),
                     Rep [Spc] 0 None, Eol]"

text \<open>Line 104: \<^verbatim>\<open>^\s*([a-z\.]+)\s+(\d{1,2})(?:\s+)?(\d{2,4})\s*$\<close>\<close>

definition rx_mon_d_y :: rx where
  "rx_mon_d_y = seq [Bol, Rep [Spc] 0 None, Grp (Rep mon_cls 1 None), Rep [Spc] 1 None,
                     Grp (Rep [Dig] 1 (Some 2)), Opt (Rep [Spc] 1 None),
                     Grp (Rep [Dig] 2 (Some 4)), Rep [Spc] 0 None, Eol]"

text \<open>Line 108: \<^verbatim>\<open>^\s*(\d{1,2})\s+(?:de\s+)?([a-z\.]+)\s+(?:de\s+)?(\d{2,4})\s*$\<close>\<close>

definition rx_es :: rx where
  "rx_es = seq [Bol, Rep [Spc] 0 None, Grp (Rep [Dig] 1 (Some 2)), Rep [Spc] 1 None,
                Opt (Cat (lit ''de'') (Rep [Spc] 1 None)),
                Grp (Rep mon_cls 1 None), Rep [Spc] 1 None,
                Opt (Cat (lit ''de'') (Rep [Spc] 1 None)),
                Grp (Rep [Dig] 2 (Some 4)), Rep [Spc] 0 None, Eol]"

text \<open>Line 112: \<^verbatim>\<open>^\s*(\d{1,2})\/(\d{1,2})\/(\d{2,4})\s*$\<close>\<close>

definition rx_slash :: rx where
  "rx_slash = seq [Bol, Rep [Spc] 0 None, Grp (Rep [Dig] 1 (Some 2)), Cls [Chr (of_char CHR ''/'')],
                   Grp (Rep [Dig] 1 (Some 2)), Cls [Chr (of_char CHR ''/'')],
                   Grp (Rep [Dig] 2 (Some 4)), Rep [Spc] 0 None, Eol]"

type_synonym date = "int \<times> int \<times> int"

text \<open>\<^verbatim>\<open>if y < 100: y += 2000\<close>\<close>

definition century :: "int \<Rightarrow> int" where
  "century y = (if y < 100 then y + 2000 else y)"

text \<open>
  Each block of \<^verbatim>\<open>parse_date_any\<close> either returns a date, raises, or falls through to
  the next block; falling through is \<open>Inr None\<close>.
\<close>

text \<open>Lines 93-94.\<close>

definition block_ymd :: "pystr \<Rightarrow> py_error + date option" where
  "block_ymd s_norm =
     (case re_match rx_ymd s_norm of
        None \<Rightarrow> Inr None
      | Some m \<Rightarrow>
          bind_err (bind_err (group m 1) py_int) (\<lambda>y.
          bind_err (bind_err (group m 2) py_int) (\<lambda>mo.
          bind_err (bind_err (group m 3) py_int) (\<lambda>d.
          Inr (Some (y, mo, d))))))"

text \<open>Lines 95-99 and 112-116: the two blocks differ in the pattern only.\<close>

definition block_dmy :: "rx \<Rightarrow> pystr \<Rightarrow> py_error + date option" where
  "block_dmy r s_norm =
     (case re_match r s_norm of
        None \<Rightarrow> Inr None
      | Some m \<Rightarrow>
          bind_err (bind_err (group m 1) py_int) (\<lambda>d.
          bind_err (bind_err (group m 2) py_int) (\<lambda>mo.
          bind_err (bind_err (group m 3) py_int) (\<lambda>y.
          Inr (Some (century y, mo, d))))))"

text \<open>Lines 100-103 and 108-111: day, month name, year.\<close>

definition block_d_mon_y :: "rx \<Rightarrow> pystr \<Rightarrow> py_error + date option" where
  "block_d_mon_y r s_norm =
     (case re_match r s_norm of
        None \<Rightarrow> Inr None
      | Some m \<Rightarrow>
          bind_err (bind_err (group m 1) py_int) (\<lambda>d.
          bind_err (group m 2) (\<lambda>g2.
          bind_err (bind_err (group m 3) py_int) (\<lambda>y.
          (case MONTHS (strip_chars (str ''.'') g2) of
             Some mo \<Rightarrow> Inr (Some (century y, mo, d))
           | None \<Rightarrow> Inr None)))))"

text \<open>Lines 104-107: month name, day, year.\<close>

definition block_mon_d_y :: "pystr \<Rightarrow> py_error + date option" where
  "block_mon_d_y s_norm =
     (case re_match rx_mon_d_y s_norm of
        None \<Rightarrow> Inr None
      | Some m \<Rightarrow>
          bind_err (group m 1) (\<lambda>g1.
          bind_err (bind_err (group m 2) py_int) (\<lambda>d.
          bind_err (bind_err (group m 3) py_int) (\<lambda>y.
          (case MONTHS (strip_chars (str ''.'') g1) of
             Some mo \<Rightarrow> Inr (Some (century y, mo, d))
           | None \<Rightarrow> Inr None)))))"

definition or_else :: "py_error + 'a option \<Rightarrow> py_error + 'a option \<Rightarrow> py_error + 'a option" where
  "or_else r k = (case r of Inr None \<Rightarrow> k | _ \<Rightarrow> r)"

definition parse_date_any :: "pystr \<Rightarrow> py_error + date option" where
  "parse_date_any s =
     (if s = [] then Inr None
      else let s0 = strip s in
        if s0 = [] then Inr None
        else let s_spaces = strip (sub_commas_tabs False s0);
                 s_norm = strip_accents (lower s_spaces)
             in or_else (block_ymd s_norm)
               (or_else (block_dmy rx_dmy s_norm)
               (or_else (block_d_mon_y rx_d_mon_y s_norm)
               (or_else (block_mon_d_y s_norm)
               (or_else (block_d_mon_y rx_es s_norm)
               (or_else (block_dmy rx_slash s_norm)
               (Inr None)))))))"

section \<open>Date parsing, first version (factuser-v1.py, lines 65-103)\<close>

text \<open>Line 75 of factuser-v1.py: \<^verbatim>\<open>s0.replace(',', ' ')\<close>.\<close>

definition replace_commas :: "pystr \<Rightarrow> pystr" where
  "replace_commas s = map (\<lambda>c. if c = 44 then 32 else c) s"

definition MONTHS_v1_items :: "(string \<times> int) list" where
  "MONTHS_v1_items =
    [(''jan'',1),(''january'',1),(''feb'',2),(''february'',2),(''mar'',3),(''march'',3),
     (''apr'',4),(''april'',4),(''may'',5),
     (''jun'',6),(''june'',6),(''jul'',7),(''july'',7),(''aug'',8),(''august'',8),
     (''sep'',9),(''sept'',9),(''september'',9),
     (''oct'',10),(''october'',10),(''nov'',11),(''november'',11),(''dec'',12),(''december'',12)]"

definition MONTHS_v1 :: "pystr \<rightharpoonup> int" where
  "MONTHS_v1 = map_of (rev (map (\<lambda>(k, v). (str k, v)) MONTHS_v1_items))"

definition mon_cls_v1 :: "citem list" where
  "mon_cls_v1 = [Rng (of_char CHR ''A'') (of_char CHR ''Z''), Rng (of_char CHR ''a'') (of_char CHR ''z''),
                 Chr (of_char CHR ''.'')]"

text \<open>Line 86: \<^verbatim>\<open>^\s*(\d{1,2})\s+([A-Za-z\.]+)\s+(\d{2,4})\s*$\<close>\<close>

definition rx_d_mon_y_v1 :: rx where
  "rx_d_mon_y_v1 = seq [Bol, Rep [Spc] 0 None, Grp (Rep [Dig] 1 (Some 2)), Rep [Spc] 1 None,
                     Grp (Rep mon_cls_v1 1 None), Rep [Spc] 1 None, Grp (Rep [Dig] 2 (Some 4)),
                     Rep [Spc] 0 None, Eol]"

text \<open>Line 92: \<^verbatim>\<open>^\s*([A-Za-z\.]+)\s+(\d{1,2})(?:,)?\s+(\d{2,4})\s*$\<close>\<close>

definition rx_mon_d_y_v1 :: rx where
  "rx_mon_d_y_v1 = seq [Bol, Rep [Spc] 0 None, Grp (Rep mon_cls_v1 1 None), Rep [Spc] 1 None,
                     Grp (Rep [Dig] 1 (Some 2)), Opt (Cls [Chr (of_char CHR '','')]),
                     Rep [Spc] 1 None, Grp (Rep [Dig] 2 (Some 4)), Rep [Spc] 0 None, Eol]"

text \<open>Lines 86-90 and 92-96 of factuser-v1.py.\<close>

definition block_d_mon_y_v1 :: "pystr \<Rightarrow> py_error + date option" where
  "block_d_mon_y_v1 s1 =
     (case re_match rx_d_mon_y_v1 s1 of
        None \<Rightarrow> Inr None
      | Some m \<Rightarrow>
          bind_err (bind_err (group m 1) py_int) (\<lambda>d.
          bind_err (group m 2) (\<lambda>g2.
          bind_err (bind_err (group m 3) py_int) (\<lambda>y.
          (case MONTHS_v1 (strip_chars (str ''.'') (lower g2)) of
             Some mo \<Rightarrow> Inr (Some (century y, mo, d))
           | None \<Rightarrow> Inr None)))))"

definition block_mon_d_y_v1 :: "pystr \<Rightarrow> py_error + date option" where
  "block_mon_d_y_v1 s1 =
     (case re_match rx_mon_d_y_v1 s1 of
        None \<Rightarrow> Inr None
      | Some m \<Rightarrow>
          bind_err (group m 1) (\<lambda>g1.
          bind_err (bind_err (group m 2) py_int) (\<lambda>d.
          bind_err (bind_err (group m 3) py_int) (\<lambda>y.
          (case MONTHS_v1 (strip_chars (str ''.'') (lower g1)) of
             Some mo \<Rightarrow> Inr (Some (century y, mo, d))
           | None \<Rightarrow> Inr None)))))"

text \<open>Lines 71-103 of factuser-v1.py. The patterns of lines 77, 80 and 98 are those of
  lines 93, 95 and 112 of factuser-v2.py.\<close>

definition parse_date_any_v1 :: "pystr \<Rightarrow> py_error + date option" where
  "parse_date_any_v1 s =
     (let s0 = strip s in
      if s0 = [] then Inr None
      else let s1 = strip (replace_commas s0)
           in or_else (block_ymd s1)
             (or_else (block_dmy rx_dmy s1)
             (or_else (block_d_mon_y_v1 s1)
             (or_else (block_mon_d_y_v1 s1)
             (or_else (block_dmy rx_slash s1)
             (Inr None))))))"

section \<open>Suggestion lists (factuser-v2.py, lines 53-54, 536-593 and 931-979)\<close>

text \<open>
  A CSV row, as \<^verbatim>\<open>csv.DictReader\<close> yields it, is a dictionary from the column names of
  the header to the cells of the line. A cell is a string, or \<^verbatim>\<open>None\<close> where the line is
  shorter than the header (the reader's \<^verbatim>\<open>restval\<close>); the cells of a line longer than the
  header are collected under the key \<^verbatim>\<open>None\<close>, which the program never reads. The column
  names the program reads are literals of the source.
\<close>

type_synonym cell = "pystr option"
type_synonym row = "string \<rightharpoonup> cell"

text \<open>Lines 53-54; the dash is U+2014.\<close>

definition LEAVE_UNCHANGED :: pystr where
  "LEAVE_UNCHANGED = [8212, 32] @ str ''leave unchanged'' @ [32, 8212]"

definition CLEAR_FIELD :: pystr where
  "CLEAR_FIELD = [8212, 32] @ str ''clear field'' @ [32, 8212]"

text \<open>
  \<^verbatim>\<open>collections.Counter\<close>: the keys in the order of their first insertion, each with its
  count. \<^verbatim>\<open>cnt[k] += 1\<close> keeps the place of a key that is present and appends a new one.
  \<^verbatim>\<open>most_common()\<close> is \<^verbatim>\<open>sorted(items, key=count, reverse=True)\<close>, a stable sort.
\<close>

fun counter_incr :: "('k \<times> nat) list \<Rightarrow> 'k \<Rightarrow> ('k \<times> nat) list" where
  "counter_incr [] k = [(k, 1)]"
| "counter_incr ((k', n) # kvs) k =
     (if k' = k then (k', n + 1) # kvs else (k', n) # counter_incr kvs k)"

definition most_common :: "('k \<times> nat) list \<Rightarrow> ('k \<times> nat) list" where
  "most_common cnt = sort_key (\<lambda>kv. - int (snd kv)) cnt"

text \<open>\<^verbatim>\<open>(r.get(field) or "").strip()\<close>\<close>

definition field_value :: "row \<Rightarrow> string \<Rightarrow> pystr" where
  "field_value r field = strip (case r field of Some (Some v) \<Rightarrow> v | _ \<Rightarrow> [])"

text \<open>Lines 536-543. The argument \<open>seen\<close> is \<^verbatim>\<open>self.seen_by_filename\<close>, a
  \<^verbatim>\<open>defaultdict(list)\<close>: a key that was never indexed has the empty list. Its keys are
  the file name cells of the rows; the file name asked for is a string.\<close>

definition count_values :: "row list \<Rightarrow> string \<Rightarrow> (pystr \<times> nat) list" where
  "count_values rows field =
     fold (\<lambda>r cnt. let val = field_value r field in if val \<noteq> [] then counter_incr cnt val else cnt)
          rows []"

definition csv_top_for_file :: "(cell \<Rightarrow> row list) \<Rightarrow> pystr \<Rightarrow> string \<Rightarrow> pystr list" where
  "csv_top_for_file seen filename field =
     (let rows = seen (Some filename) in
      if rows = [] then [] else map fst (most_common (count_values rows field)))"

text \<open>The nine line edits of the form; \<^verbatim>\<open>w.text()\<close> is the field of the record.\<close>

record form =
  year_edit :: pystr
  month_edit :: pystr
  day_edit :: pystr
  provider_edit :: pystr
  invoice_edit :: pystr
  total_edit :: pystr
  card_edit :: pystr
  taxid_edit :: pystr
  iban_edit :: pystr

text \<open>Lines 546-556.\<close>

definition current_value_for :: "form \<Rightarrow> string \<Rightarrow> pystr" where
  "current_value_for f key =
     (if key = ''date''
      then (let y = strip (year_edit f); m = strip (month_edit f); d = strip (day_edit f)
            in if y \<noteq> [] \<or> m \<noteq> [] \<or> d \<noteq> [] then y @ str ''-'' @ m @ str ''-'' @ d else [])
      else (case map_of [(''provider'', strip (provider_edit f)),
                         (''invoice'', strip (invoice_edit f)),
                         (''total'', strip (total_edit f)),
                         (''taxid'', strip (taxid_edit f)),
                         (''iban'', strip (iban_edit f))] key of
              Some v \<Rightarrow> v
            | None \<Rightarrow> []))"

text \<open>
  A \<^verbatim>\<open>QComboBox\<close>: its items and the current index. \<^verbatim>\<open>findText\<close> returns the index of
  the first item equal to the text (exact, case-sensitive), or -1.
\<close>

record combo =
  items :: "pystr list"
  current_index :: int

fun findText :: "pystr list \<Rightarrow> pystr \<Rightarrow> int" where
  "findText [] t = - 1"
| "findText (x # xs) t =
     (if x = t then 0 else let i = findText xs t in if i < 0 then - 1 else i + 1)"

text \<open>Lines 563-567: the local function \<^verbatim>\<open>add\<close>, on the items added so far and \<^verbatim>\<open>seen\<close>.\<close>

definition add :: "pystr \<Rightarrow> pystr list \<times> pystr set \<Rightarrow> pystr list \<times> pystr set" where
  "add val st =
     (let v = strip val in
      if v = [] \<or> v \<in> snd st then st else (fst st @ [v], insert v (snd st)))"

text \<open>Lines 559-573, for one key: the body of the loop over \<^verbatim>\<open>self.sugg_fields\<close>.\<close>

definition populate_combo :: "pystr list \<Rightarrow> pystr list \<Rightarrow> pystr \<Rightarrow> combo" where
  "populate_combo csv_top ai_vals cur =
     (let st1 = fold add csv_top ([], {});
          st2 = fold add ai_vals st1;
          st3 = (if cur \<noteq> [] then add cur st2 else st2);
          its = fst st3 @ [LEAVE_UNCHANGED, CLEAR_FIELD]
      in \<lparr> items = its,
           current_index =
             (if length its \<noteq> 0 \<and> its ! 0 \<noteq> LEAVE_UNCHANGED \<and> its ! 0 \<noteq> CLEAR_FIELD
              then 0 else findText its LEAVE_UNCHANGED) \<rparr>)"

text \<open>Line 557 and 561: the AI candidates of a file and key.\<close>

definition ai_vals_for :: "(pystr \<rightharpoonup> (string \<rightharpoonup> pystr list)) \<Rightarrow> pystr \<Rightarrow> string \<Rightarrow> pystr list" where
  "ai_vals_for ai_cache filename key =
     (case ai_cache filename of
        None \<Rightarrow> []
      | Some entry \<Rightarrow> (case entry key of None \<Rightarrow> [] | Some vs \<Rightarrow> vs))"

text \<open>The keys of \<^verbatim>\<open>self.sugg_fields\<close>, in the order lines 244-247 insert them.\<close>

definition sugg_keys :: "string list" where
  "sugg_keys = [''date'', ''provider'', ''invoice'', ''total'', ''taxid'', ''iban'']"

text \<open>Lines 545-573: the combo of every key, rebuilt.\<close>

definition populate_ai_from_sources ::
  "(cell \<Rightarrow> row list) \<Rightarrow> (pystr \<rightharpoonup> (string \<rightharpoonup> pystr list)) \<Rightarrow> form \<Rightarrow> pystr \<Rightarrow>
   (string \<times> combo) list" where
  "populate_ai_from_sources seen ai_cache f filename =
     map (\<lambda>key. (key, populate_combo (csv_top_for_file seen filename key)
                                      (ai_vals_for ai_cache filename key)
                                      (current_value_for f key)))
         sugg_keys"

text \<open>
  Lines 944-959, \<^verbatim>\<open>populate_ai_from_cache\<close>, for one key: the builder that the later
  definitions of \<^verbatim>\<open>run_ai\<close> (line 962) and \<^verbatim>\<open>batch_ai_cache\<close> (line 981) call. It reads
  no history, trims nothing and compares nothing.
\<close>

definition populate_combo_from_cache :: "pystr list \<Rightarrow> pystr \<Rightarrow> combo" where
  "populate_combo_from_cache candidates cur =
     (let its = candidates @ (if cur \<noteq> [] then [cur] else []) @ [LEAVE_UNCHANGED, CLEAR_FIELD]
      in \<lparr> items = its, current_index = 0 \<rparr>)"

definition populate_ai_from_cache ::
  "(pystr \<rightharpoonup> (string \<rightharpoonup> pystr list)) \<Rightarrow> form \<Rightarrow> pystr \<Rightarrow> (string \<times> combo) list" where
  "populate_ai_from_cache ai_cache f filename =
     map (\<lambda>key. (key, populate_combo_from_cache (ai_vals_for ai_cache filename key)
                                                 (current_value_for f key)))
         sugg_keys"

text \<open>
  \<^verbatim>\<open>run_ai\<close>. The class body defines it twice, at line 576 and at line 962, and the later
  definition replaces the earlier one: the button "Run AI" calls the method of lines
  962-979. The state is the AI cache and the combos of the form. The argument \<open>result\<close> is
  what \<^verbatim>\<open>extract_entities\<close> returns for the document that Document AI sends back (line 973),
  or nothing when the method returns early or the call raises (lines 963-966 and 978):
  then the state is as it was.
\<close>

type_synonym ai_cache = "pystr \<rightharpoonup> (string \<rightharpoonup> pystr list)"

text \<open>The combos as lines 244-247 create them: the two markers, the first one current.\<close>

definition initial_combos :: "(string \<times> combo) list" where
  "initial_combos =
     map (\<lambda>key. (key, \<lparr> items = [LEAVE_UNCHANGED, CLEAR_FIELD], current_index = 0 \<rparr>)) sugg_keys"

definition run_ai ::
  "ai_cache \<times> (string \<times> combo) list \<Rightarrow> form \<Rightarrow> pystr \<Rightarrow> (string \<rightharpoonup> pystr list) option \<Rightarrow>
   ai_cache \<times> (string \<times> combo) list" where
  "run_ai st f name result =
     (case result of
        None \<Rightarrow> st
      | Some sugg \<Rightarrow>
          (let cache = (fst st)(name \<mapsto> sugg)
           in (cache, populate_ai_from_cache cache f name)))"

text \<open>The method of lines 576-593, which the class does not bind (line 590).\<close>

definition run_ai_shadowed ::
  "(cell \<Rightarrow> row list) \<Rightarrow> ai_cache \<times> (string \<times> combo) list \<Rightarrow> form \<Rightarrow> pystr \<Rightarrow>
   (string \<rightharpoonup> pystr list) option \<Rightarrow> ai_cache \<times> (string \<times> combo) list" where
  "run_ai_shadowed seen st f name result =
     (case result of
        None \<Rightarrow> st
      | Some sugg \<Rightarrow>
          (let cache = (fst st)(name \<mapsto> sugg)
           in (cache, populate_ai_from_sources seen cache f name)))"

text \<open>
  The suggestion list in the words of the specification: an ordered set, to which each
  entry is appended unless it is blank or already present.
\<close>

fun append_new :: "pystr list \<Rightarrow> pystr list \<Rightarrow> pystr list" where
  "append_new acc [] = acc"
| "append_new acc (v # vs) =
     (if v = [] \<or> v \<in> set acc then append_new acc vs else append_new (acc @ [v]) vs)"

definition build_spec :: "pystr list \<Rightarrow> pystr list \<Rightarrow> pystr \<Rightarrow> pystr list" where
  "build_spec history ai cur =
     append_new (append_new (append_new [] history) ai) (if cur \<noteq> [] then [cur] else [])
       @ [LEAVE_UNCHANGED, CLEAR_FIELD]"

section \<open>The record index (factuser-v2.py, lines 69-75, 437-497 and 858-898)\<close>

text \<open>\<^verbatim>\<open>re.sub(r'[^a-z0-9]+', ' ', s)\<close> and \<^verbatim>\<open>re.sub(r'\s+', ' ', s)\<close>: every maximal run
  of characters of the class becomes one space.\<close>

fun sub_runs :: "(cp \<Rightarrow> bool) \<Rightarrow> bool \<Rightarrow> pystr \<Rightarrow> pystr" where
  "sub_runs p in_run [] = []"
| "sub_runs p in_run (c # cs) =
     (if p c then (if in_run then sub_runs p True cs else 32 # sub_runs p True cs)
      else c # sub_runs p False cs)"

definition is_alnum_lower :: "cp \<Rightarrow> bool" where
  "is_alnum_lower c = ((97 \<le> c \<and> c \<le> 122) \<or> (48 \<le> c \<and> c \<le> 57))"

text \<open>\<^verbatim>\<open>s.split(' ')\<close>: the pieces between single spaces, empty pieces kept.\<close>

fun split_spaces :: "pystr \<Rightarrow> pystr \<Rightarrow> pystr list" where
  "split_spaces cur [] = [cur]"
| "split_spaces cur (c # cs) =
     (if c = 32 then cur # split_spaces [] cs else split_spaces (cur @ [c]) cs)"

definition legal_suffixes :: "pystr list" where
  "legal_suffixes = map str [''gmbh'', ''ug'', ''ag'', ''kg'', ''mbh'', ''co'', ''inc'', ''llc'',
     ''ltd'', ''the'', ''sll'', ''sl'', ''srl'', ''sa'', ''sas'', ''spa'']"

text \<open>
  Line 73, \<^verbatim>\<open>re.sub(r'\b(gmbh|ug|...|spa)\b', ' ', s)\<close>. After line 72 the string holds only
  \<open>a-z\<close>, \<open>0-9\<close> and spaces, so a word boundary is the edge of a maximal run of letters
  and digits, and the pattern matches exactly the runs that are one of the listed words:
  each such run becomes a space.
\<close>

definition sub_legal_suffixes :: "pystr \<Rightarrow> pystr" where
  "sub_legal_suffixes s =
     join [32] (map (\<lambda>w. if w \<in> set legal_suffixes then [32] else w) (split_spaces [] s))"

text \<open>Lines 69-75.\<close>

definition normalize_provider :: "pystr \<Rightarrow> pystr" where
  "normalize_provider p =
     (if p = [] then []
      else let s1 = strip_accents (strip (lower p));
               s2 = sub_runs (\<lambda>c. \<not> is_alnum_lower c) False s1;
               s3 = sub_legal_suffixes s2
           in strip (sub_runs is_space False s3))"

text \<open>
  \<^verbatim>\<open>row.get(k, "")\<close>: the cell of the column, the empty string when the row has no such
  column. \<^verbatim>\<open>c.strip()\<close> on a cell: \<^verbatim>\<open>None\<close> has no such method, the call raises
  \<^verbatim>\<open>AttributeError\<close>. The cell in an f-string: \<^verbatim>\<open>None\<close> is printed as its name.
\<close>

definition row_get :: "row \<Rightarrow> string \<Rightarrow> cell" where
  "row_get r k = (case r k of None \<Rightarrow> Some [] | Some c \<Rightarrow> c)"

definition cell_strip :: "cell \<Rightarrow> py_error + pystr" where
  "cell_strip c = (case c of None \<Rightarrow> Inl AttributeError | Some v \<Rightarrow> Inr (strip v))"

definition cell_format :: "cell \<Rightarrow> pystr" where
  "cell_format c = (case c of None \<Rightarrow> str ''None'' | Some v \<Rightarrow> v)"

text \<open>
  The index state of lines 171-177. The two \<^verbatim>\<open>defaultdict(list)\<close> are functions whose
  value at a key never written is the empty list; the three \<^verbatim>\<open>Counter\<close>s keep their keys
  in insertion order. The keys of \<^verbatim>\<open>seen_by_filename\<close> are file name cells.
\<close>

type_synonym group_key = "pystr \<times> pystr \<times> pystr \<times> pystr"

record index =
  csv_rows :: "row list"
  seen_by_filename :: "cell \<Rightarrow> row list"
  freq_provider :: "(pystr \<times> nat) list"
  freq_taxid :: "(pystr \<times> nat) list"
  freq_iban :: "(pystr \<times> nat) list"
  group_index :: "group_key \<Rightarrow> row list"

text \<open>
  Lines 470-482, \<^verbatim>\<open>_index_csv_row\<close>: the state it leaves, and the exception it raises if
  any. The statements run in the order of the source, so a row with a \<^verbatim>\<open>None\<close> cell is
  already in \<^verbatim>\<open>csv_rows\<close> and \<^verbatim>\<open>seen_by_filename\<close> when line 474, 475 or 476 raises, and
  is counted as well when line 481 raises.
\<close>

definition index_csv_row :: "index \<Rightarrow> row \<Rightarrow> index \<times> py_error option" where
  "index_csv_row ix r =
     (let fn = row_get r ''filename'';
          ix1 = ix \<lparr> csv_rows := csv_rows ix @ [r],
                     seen_by_filename := (seen_by_filename ix)(fn := seen_by_filename ix fn @ [r]) \<rparr>
      in case cell_strip (row_get r ''provider'') of Inl e \<Rightarrow> (ix1, Some e) | Inr prov \<Rightarrow>
        (case cell_strip (row_get r ''taxid'') of Inl e \<Rightarrow> (ix1, Some e) | Inr tax \<Rightarrow>
        (case cell_strip (row_get r ''iban'') of Inl e \<Rightarrow> (ix1, Some e) | Inr iban \<Rightarrow>
          (let ix2 = ix1 \<lparr> freq_provider := (if prov \<noteq> [] then counter_incr (freq_provider ix1) prov
                                               else freq_provider ix1),
                            freq_taxid := (if tax \<noteq> [] then counter_incr (freq_taxid ix1) tax
                                            else freq_taxid ix1),
                            freq_iban := (if iban \<noteq> [] then counter_incr (freq_iban ix1) iban
                                           else freq_iban ix1) \<rparr>;
               date_key = cell_format (row_get r ''year'') @ str ''-'' @
                          cell_format (row_get r ''month'') @ str ''-'' @
                          cell_format (row_get r ''day'');
               nprov = normalize_provider prov
           in case cell_strip (row_get r ''invoice'') of Inl e \<Rightarrow> (ix2, Some e) | Inr invoice_v \<Rightarrow>
             (case cell_strip (row_get r ''total'') of Inl e \<Rightarrow> (ix2, Some e) | Inr total_v \<Rightarrow>
               (let key = (nprov, invoice_v, total_v, date_key)
                in (ix2 \<lparr> group_index := (group_index ix2)(key := group_index ix2 key @ [r]) \<rparr>,
                    None)))))))"

text \<open>Lines 485-487: every container cleared in place.\<close>

definition clear :: "index \<Rightarrow> index" where
  "clear ix = ix \<lparr> csv_rows := [], seen_by_filename := (\<lambda>fn. []), freq_provider := [],
                    freq_taxid := [], freq_iban := [], group_index := (\<lambda>k. []) \<rparr>"

text \<open>The state of a new \<^verbatim>\<open>PdfSorter\<close> (lines 171-177): nothing ingested.\<close>

definition empty_index :: index where
  "empty_index = \<lparr> csv_rows = [], seen_by_filename = (\<lambda>fn. []), freq_provider = [],
                   freq_taxid = [], freq_iban = [], group_index = (\<lambda>k. []) \<rparr>"

text \<open>
  Lines 492-493: the loop over the rows the reader yields. An exception of
  \<^verbatim>\<open>_index_csv_row\<close> leaves the loop: the rows after the raising one are not read.
\<close>

fun index_rows :: "index \<Rightarrow> row list \<Rightarrow> index \<times> py_error option" where
  "index_rows ix [] = (ix, None)"
| "index_rows ix (r # rs) =
     (case index_csv_row ix r of
        (ix', None) \<Rightarrow> index_rows ix' rs
      | (ix', Some e) \<Rightarrow> (ix', Some e))"

text \<open>
  Lines 484-497, \<^verbatim>\<open>_load_csv_suggestions_and_indices\<close>, on the state before the call and
  the rows of the CSV file (none when the file does not exist). The \<^verbatim>\<open>except\<close> branch of
  lines 495-496 logs the exception and goes on with the index as the loop left it.
\<close>

definition load_csv_suggestions_and_indices :: "index \<Rightarrow> row list \<Rightarrow> index" where
  "load_csv_suggestions_and_indices ix rows = fst (index_rows (clear ix) rows)"

subsection \<open>Saving a record (lines 437-467 and 858-876)\<close>

text \<open>
  The line that \<^verbatim>\<open>_append_csv\<close> writes for a file, as a row: under the header the program
  writes (lines 444 and 865) it is the row the reader yields for that line, and it is the
  dictionary of lines 452-463.
\<close>

definition form_row :: "pystr \<Rightarrow> form \<Rightarrow> row" where
  "form_row name f =
     [''filename'' \<mapsto> Some name,
      ''year'' \<mapsto> Some (strip (year_edit f)),
      ''month'' \<mapsto> Some (strip (month_edit f)),
      ''day'' \<mapsto> Some (strip (day_edit f)),
      ''provider'' \<mapsto> Some (strip (provider_edit f)),
      ''invoice'' \<mapsto> Some (strip (invoice_edit f)),
      ''total'' \<mapsto> Some (strip (total_edit f)),
      ''card'' \<mapsto> Some (strip (card_edit f)),
      ''taxid'' \<mapsto> Some (strip (taxid_edit f)),
      ''iban'' \<mapsto> Some (strip (iban_edit f))]"

text \<open>
  The class body of \<^verbatim>\<open>PdfSorter\<close> defines \<^verbatim>\<open>_append_csv\<close> twice, at line 437 and at line
  858, and the later definition replaces the earlier one: \<^verbatim>\<open>move_to_dir\<close> calls the method
  of lines 858-876. The state is the rows of the CSV file and the index; \<open>written\<close> tells
  whether the file could be opened and written (otherwise the \<^verbatim>\<open>except\<close> branch logs the
  error). The method of line 858 then calls \<^verbatim>\<open>_load_csv_suggestions\<close> (lines 878-898), which
  reads the file again and sets the three completer models: it does not touch the index.
\<close>

definition append_csv :: "bool \<Rightarrow> row list \<times> index \<Rightarrow> pystr \<Rightarrow> form \<Rightarrow> row list \<times> index" where
  "append_csv written st name f =
     (if written then (fst st @ [form_row name f], snd st) else st)"

text \<open>
  The method of lines 437-467, which the class does not bind: after the line is written
  it ingests the row (line 452). An exception of the ingest would be caught at line 464;
  the index is as the ingest left it.
\<close>

definition append_csv_shadowed :: "bool \<Rightarrow> row list \<times> index \<Rightarrow> pystr \<Rightarrow> form \<Rightarrow> row list \<times> index" where
  "append_csv_shadowed written st name f =
     (if written then (fst st @ [form_row name f], fst (index_csv_row (snd st) (form_row name f)))
      else st)"

section \<open>Selecting text on the page (factuser-v2.py, lines 670-787 and 1057-1092)\<close>

text \<open>
  A word of \<^verbatim>\<open>page.get_text("words")\<close> is the tuple
  \<^verbatim>\<open>(x0, y0, x1, y1, word, block, line, word_no)\<close>. Coordinates are Python floats; here they
  are rationals, so arithmetic and comparisons are exact. What a handler does is one of:
  it opens the field menu on a text, it returns without doing anything, or its
  \<^verbatim>\<open>except\<close> branch logs the exception.
\<close>

record word =
  wx0 :: rat
  wy0 :: rat
  wx1 :: rat
  wy1 :: rat
  wtext :: pystr
  wblock :: int
  wline :: int
  wno :: int

datatype outcome = Popup pystr | Nothing | Logged py_error

text \<open>\<^verbatim>\<open>x / self.zoom\<close>\<close>

definition py_div :: "rat \<Rightarrow> rat \<Rightarrow> py_error + rat" where
  "py_div a b = (if b = 0 then Inl ZeroDivisionError else Inr (a / b))"

definition logged :: "py_error + outcome \<Rightarrow> outcome" where
  "logged r = (case r of Inl e \<Rightarrow> Logged e | Inr out \<Rightarrow> out)"

subsection \<open>The rectangle (lines 761-787)\<close>

text \<open>The four accessors of the \<^verbatim>\<open>QRect\<close> the handler reads.\<close>

record qrect =
  r_left :: int
  r_top :: int
  r_right :: int
  r_bottom :: int

type_synonym frect = "rat \<times> rat \<times> rat \<times> rat"

text \<open>
  \<^verbatim>\<open>on_pdf_box\<close>. \<^verbatim>\<open>fitz.Rect.intersects\<close> belongs to PyMuPDF, not to this repository: it
  is the parameter \<open>intersects\<close>.
\<close>

definition on_pdf_box :: "(frect \<Rightarrow> frect \<Rightarrow> bool) \<Rightarrow> rat \<Rightarrow> qrect \<Rightarrow> word list \<Rightarrow> outcome" where
  "on_pdf_box intersects zoom rect words = logged (
     bind_err (py_div (of_int (r_left rect)) zoom) (\<lambda>x0.
     bind_err (py_div (of_int (r_top rect)) zoom) (\<lambda>y0.
     bind_err (py_div (of_int (r_right rect)) zoom) (\<lambda>x1.
     bind_err (py_div (of_int (r_bottom rect)) zoom) (\<lambda>y1.
       let sel = (x0, y0, x1, y1) in
       if words = [] then Inr Nothing
       else let picked = filter (\<lambda>w. intersects (wx0 w, wy0 w, wx1 w, wy1 w) sel) words;
                sorted_picked = sort_key (\<lambda>w. (wblock w, wline w, wx0 w)) picked;
                text = strip (join [32] (map wtext sorted_picked))
            in if text = [] then Inr Nothing else Inr (Popup text))))))"

text \<open>
  Modelled from the spec: the intersection test of PyMuPDF is not in the repository; the
  specification calls it the standard axis-aligned rectangle intersection, partial overlap
  included. It is used for the concrete examples only.
\<close>

definition overlap :: "frect \<Rightarrow> frect \<Rightarrow> bool" where
  "overlap a b = (case a of (ax0, ay0, ax1, ay1) \<Rightarrow> case b of (bx0, by0, bx1, by1) \<Rightarrow>
     max ax0 bx0 < min ax1 bx1 \<and> max ay0 by0 < min ay1 by1)"

subsection \<open>The click, as the class binds it (lines 1057-1092)\<close>

text \<open>
  The class body of \<^verbatim>\<open>PdfSorter\<close> defines \<^verbatim>\<open>on_pdf_click\<close> twice, at line 675 and at line
  1057. A later \<^verbatim>\<open>def\<close> in a class body replaces the earlier binding of the name, so
  \<^verbatim>\<open>self.on_pdf_click\<close>, which line 182 connects to the click signal, is the function of
  line 1057: the word whose centre is nearest to the click.
\<close>

text \<open>Lines 1068-1074: the loop, on \<^verbatim>\<open>(best, best_dist2)\<close>.\<close>

definition nearest_step ::
  "rat \<Rightarrow> rat \<Rightarrow> word \<Rightarrow> pystr option \<times> rat \<Rightarrow> pystr option \<times> rat" where
  "nearest_step pdf_x pdf_y w st =
     (let cx = (wx0 w + wx1 w) / 2; cy = (wy0 w + wy1 w) / 2;
          d2 = (cx - pdf_x)\<^sup>2 + (cy - pdf_y)\<^sup>2
      in if d2 < snd st then (Some (wtext w), d2) else st)"

definition on_pdf_click :: "rat \<Rightarrow> word list \<Rightarrow> int \<Rightarrow> int \<Rightarrow> outcome" where
  "on_pdf_click zoom words x y = logged (
     bind_err (py_div (of_int x) zoom) (\<lambda>pdf_x.
     bind_err (py_div (of_int y) zoom) (\<lambda>pdf_y.
       if words = [] then Inr Nothing
       else (case fst (fold (nearest_step pdf_x pdf_y) words (None, 10 ^ 18)) of
               None \<Rightarrow> Inr Nothing
             | Some word \<Rightarrow>
                 let text = strip word in
                 if text = [] then Inr Nothing else Inr (Popup text)))))"

subsection \<open>The click of lines 675-759, which the class does not bind\<close>

text \<open>Lines 689-691: \<^verbatim>\<open>by_line\<close>, a dictionary in insertion order.\<close>

fun by_line_add :: "((int \<times> int) \<times> word list) list \<Rightarrow> word \<Rightarrow> ((int \<times> int) \<times> word list) list" where
  "by_line_add [] w = [((wblock w, wline w), [w])]"
| "by_line_add ((k, ws) # rest) w =
     (if k = (wblock w, wline w) then (k, ws @ [w]) # rest else (k, ws) # by_line_add rest w)"

definition by_line_of :: "word list \<Rightarrow> ((int \<times> int) \<times> word list) list" where
  "by_line_of words = fold (\<lambda>w bl. by_line_add bl w) words []"

text \<open>\<^verbatim>\<open>min(xs)\<close> and \<^verbatim>\<open>max(xs)\<close> raise on an empty list.\<close>

fun py_min :: "rat list \<Rightarrow> py_error + rat" where
  "py_min [] = Inl ValueError"
| "py_min (x # xs) = Inr (fold min xs x)"

fun py_max :: "rat list \<Rightarrow> py_error + rat" where
  "py_max [] = Inl ValueError"
| "py_max (x # xs) = Inr (fold max xs x)"

text \<open>Lines 693-699: the loop over the lines, on \<^verbatim>\<open>(best_line_key, best_line_dist)\<close>.\<close>

fun nearest_line ::
  "rat \<Rightarrow> ((int \<times> int) \<times> word list) list \<Rightarrow> (int \<times> int) option \<times> rat \<Rightarrow>
   py_error + (int \<times> int) option \<times> rat" where
  "nearest_line pdf_y [] st = Inr st"
| "nearest_line pdf_y ((key, ws) # rest) st =
     bind_err (py_min (map wy0 ws)) (\<lambda>lo.
     bind_err (py_max (map wy1 ws)) (\<lambda>hi.
       let mid = (lo + hi) / 2; d = \<bar>mid - pdf_y\<bar>
       in nearest_line pdf_y rest (if d < snd st then (Some key, d) else st)))"

text \<open>\<^verbatim>\<open>by_line[best_line_key]\<close>: the dictionary is a \<^verbatim>\<open>defaultdict(list)\<close>.\<close>

definition by_line_get :: "((int \<times> int) \<times> word list) list \<Rightarrow> (int \<times> int) option \<Rightarrow> word list" where
  "by_line_get bl key =
     (case key of None \<Rightarrow> [] | Some k \<Rightarrow> (case map_of bl k of None \<Rightarrow> [] | Some ws \<Rightarrow> ws))"

text \<open>\<^verbatim>\<open>min(ws, key=f)\<close>: the first element with the least key.\<close>

fun py_min_key :: "('a \<Rightarrow> rat) \<Rightarrow> 'a list \<Rightarrow> py_error + 'a" where
  "py_min_key f [] = Inl ValueError"
| "py_min_key f (x # xs) = Inr (fold (\<lambda>y b. if f y < f b then y else b) xs x)"

text \<open>Lines 703-708.\<close>

definition pick_word :: "rat \<Rightarrow> word list \<Rightarrow> py_error + word" where
  "pick_word pdf_x line_words =
     (case find (\<lambda>w. wx0 w \<ge> pdf_x) line_words of
        Some w \<Rightarrow> Inr w
      | None \<Rightarrow> py_min_key (\<lambda>w. \<bar>(wx0 w + wx1 w) / 2 - pdf_x\<bar>) line_words)"

text \<open>\<^verbatim>\<open>ws.index(w)\<close>\<close>

fun py_index :: "'a list \<Rightarrow> 'a \<Rightarrow> py_error + int" where
  "py_index [] w = Inl ValueError"
| "py_index (x # xs) w = (if x = w then Inr 0 else bind_err (py_index xs w) (\<lambda>i. Inr (i + 1)))"

text \<open>Lines 714-715: \<^verbatim>\<open>at\<close> (here \<open>at_w\<close>) and \<^verbatim>\<open>gap\<close>.\<close>

definition at_w :: "word list \<Rightarrow> int \<Rightarrow> pystr" where
  "at_w ws i = (if 0 \<le> i \<and> i < int (length ws) then wtext (ws ! nat i) else [])"

definition gap :: "word list \<Rightarrow> int \<Rightarrow> int \<Rightarrow> rat" where
  "gap ws i j = wx0 (ws ! nat j) - wx1 (ws ! nat i)"

text \<open>Line 719; the first entry is \<^verbatim>\<open>"\<euro>"\<close>, U+20AC.\<close>

definition currency :: "pystr list" where
  "currency = [[8364], str ''eur'', str ''euro'', str ''euros'']"

text \<open>Line 729: \<^verbatim>\<open>^[\<euro>]?$|^[\d.,]+$\<close>\<close>

definition rx_numlike :: rx where
  "rx_numlike = Alt (seq [Bol, Rep [Chr 8364] 0 (Some 1), Eol])
                    (seq [Bol, Rep [Dig, Chr (of_char CHR ''.''), Chr (of_char CHR '','')] 1 None, Eol])"

definition is_numlike :: "pystr \<Rightarrow> bool" where
  "is_numlike t = (re_match rx_numlike t \<noteq> None)"

text \<open>Line 742: \<^verbatim>\<open>^[A-Za-z\u00C0-\u00FF&'.-]+$\<close>, the third range written here by its
  code points.\<close>

definition rx_namepiece :: rx where
  "rx_namepiece = seq [Bol, Rep [Rng (of_char CHR ''A'') (of_char CHR ''Z''),
                                  Rng (of_char CHR ''a'') (of_char CHR ''z''),
                                  Rng 192 255,
                                  Chr (of_char CHR ''&''), Chr 39,
                                  Chr (of_char CHR ''.''), Chr (of_char CHR ''-'')] 1 None, Eol]"

definition is_namepiece :: "pystr \<Rightarrow> bool" where
  "is_namepiece t = (re_match rx_namepiece t \<noteq> None)"

text \<open>
  The four loops of lines 731-750 are two loops, one to the left and one to the right,
  run with \<^verbatim>\<open>is_numlike\<close> and then with \<^verbatim>\<open>is_namepiece\<close>; the threshold is 25 in all four.
\<close>

function glue_left :: "(pystr \<Rightarrow> bool) \<Rightarrow> word list \<Rightarrow> int \<Rightarrow> pystr \<Rightarrow> pystr" where
  "glue_left p ws j token =
     (if 0 \<le> j \<and> p (at_w ws j) \<and> gap ws j (j + 1) < 25
      then glue_left p ws (j - 1) (wtext (ws ! nat j) @ [32] @ token)
      else token)"
  by pat_completeness auto
termination
  by (relation "measure (\<lambda>(p, ws, j, token). nat (j + 1))") auto

function glue_right :: "(pystr \<Rightarrow> bool) \<Rightarrow> word list \<Rightarrow> int \<Rightarrow> pystr \<Rightarrow> pystr" where
  "glue_right p ws j token =
     (if j < int (length ws) \<and> p (at_w ws j) \<and> gap ws (j - 1) j < 25
      then glue_right p ws (j + 1) (token @ [32] @ wtext (ws ! nat j))
      else token)"
  by pat_completeness auto
termination
  by (relation "measure (\<lambda>(p, ws, j, token). nat (int (length ws) - j))") auto

text \<open>Lines 711-751.\<close>

definition glue_amount_or_name :: "word list \<Rightarrow> int \<Rightarrow> pystr" where
  "glue_amount_or_name ws idx =
     (let token0 = wtext (ws ! nat idx);
          cur_left = (idx - 1 \<ge> 0 \<and> lower (at_w ws (idx - 1)) \<in> set currency \<and> gap ws (idx - 1) idx < 20);
          token1 = (if cur_left then wtext (ws ! nat (idx - 1)) @ [32] @ token0 else token0);
          i = (if cur_left then idx - 1 else idx);
          token2 = (if idx + 1 < int (length ws) \<and> lower (at_w ws (idx + 1)) \<in> set currency \<and>
                       gap ws idx (idx + 1) < 20
                    then token1 @ [32] @ wtext (ws ! nat (idx + 1)) else token1);
          token3 = glue_left is_numlike ws (i - 1) token2;
          token4 = glue_right is_numlike ws (idx + 1) token3;
          token5 = glue_left is_namepiece ws (i - 1) token4;
          token6 = glue_right is_namepiece ws (idx + 1) token5
      in strip token6)"

text \<open>Lines 675-759.\<close>

definition on_pdf_click_shadowed :: "rat \<Rightarrow> word list \<Rightarrow> int \<Rightarrow> int \<Rightarrow> outcome" where
  "on_pdf_click_shadowed zoom words x y = logged (
     bind_err (py_div (of_int x) zoom) (\<lambda>pdf_x.
     bind_err (py_div (of_int y) zoom) (\<lambda>pdf_y.
       if words = [] then Inr Nothing
       else let by_line = by_line_of words in
         bind_err (nearest_line pdf_y by_line (None, 10 ^ 18)) (\<lambda>best.
           let line_words = sort_key wx0 (by_line_get by_line (fst best)) in
           bind_err (pick_word pdf_x line_words) (\<lambda>picked.
           bind_err (py_index line_words picked) (\<lambda>idx.
             Inr (Popup (glue_amount_or_name line_words idx))))))))"

section \<open>Notions used in the statements\<close>

text \<open>
  The definitions of this section are not taken from the program: they name what the
  theorems speak about, and the concrete inputs of the examples.
\<close>

text \<open>
  A pattern is linear when its capturing groups are repetitions of a class and none of
  them stands under an option or an alternative, as in every pattern of the date parser;
  \<open>grp_shapes\<close> lists, group by group, the class of a group and its least length, and a
  string fits a shape when it is made of the class and has that length at least.
\<close>

fun grp_free :: "rx \<Rightarrow> bool" where
  "grp_free (Grp r) = False"
| "grp_free (Opt r) = grp_free r"
| "grp_free (Cat a b) = (grp_free a \<and> grp_free b)"
| "grp_free (Alt a b) = (grp_free a \<and> grp_free b)"
| "grp_free r = True"

fun linear :: "rx \<Rightarrow> bool" where
  "linear (Grp (Rep cs m n)) = True"
| "linear (Grp r) = False"
| "linear (Cat a b) = (linear a \<and> linear b)"
| "linear (Opt r) = grp_free r"
| "linear (Alt a b) = (grp_free a \<and> grp_free b)"
| "linear r = True"

fun grp_shapes :: "rx \<Rightarrow> (citem list \<times> nat) list" where
  "grp_shapes (Grp (Rep cs m n)) = [(cs, m)]"
| "grp_shapes (Cat a b) = grp_shapes a @ grp_shapes b"
| "grp_shapes r = []"

definition fits :: "citem list \<times> nat \<Rightarrow> pystr \<Rightarrow> bool" where
  "fits sh w = (list_all (in_cls (fst sh)) w \<and> snd sh \<le> length w)"

text \<open>The count a counter holds for a key, 0 for a key it does not hold.\<close>

definition count_of :: "('k \<times> nat) list \<Rightarrow> 'k \<Rightarrow> nat" where
  "count_of cnt k = (case map_of cnt k of None \<Rightarrow> 0 | Some n \<Rightarrow> n)"

text \<open>The per-file frequency of a value of a field: the number of rows of the file whose
  trimmed value of the field it is.\<close>

definition file_freq :: "row list \<Rightarrow> string \<Rightarrow> pystr \<Rightarrow> nat" where
  "file_freq rows field v = count_list (map (\<lambda>r. field_value r field) rows) v"

text \<open>
  A row whose cells of the five columns that \<^verbatim>\<open>_index_csv_row\<close> trims are strings, the text
  of a cell as line 480 prints it, and the duplicate-detection key of a row (lines
  480-481): the normalised provider, the trimmed invoice number and total, and the date
  as written.
\<close>

definition str_row :: "row \<Rightarrow> bool" where
  "str_row r = list_all (\<lambda>k. row_get r k \<noteq> None)
     [''provider'', ''taxid'', ''iban'', ''invoice'', ''total'']"

definition cell_text :: "row \<Rightarrow> string \<Rightarrow> pystr" where
  "cell_text r k = cell_format (row_get r k)"

definition group_key_of :: "row \<Rightarrow> group_key" where
  "group_key_of r =
     (normalize_provider (strip (cell_text r ''provider'')),
      strip (cell_text r ''invoice''),
      strip (cell_text r ''total''),
      cell_text r ''year'' @ str ''-'' @ cell_text r ''month'' @ str ''-'' @ cell_text r ''day'')"

text \<open>
  A word without whitespace: not empty and no whitespace character in it.
\<close>

definition is_word :: "pystr \<Rightarrow> bool" where
  "is_word t = (t \<noteq> [] \<and> list_all (\<lambda>c. \<not> is_space c) t)"

text \<open>
  The key of the line of a word, the distance of a height to the middle of a line (the
  middle of the least y0 and the greatest y1 of its words), and the distance of an
  abscissa to the centre of a word.
\<close>

definition line_key :: "word \<Rightarrow> int \<times> int" where
  "line_key w = (wblock w, wline w)"

definition line_dist :: "rat \<Rightarrow> word list \<Rightarrow> rat" where
  "line_dist py ws = \<bar>(Min (set (map wy0 ws)) + Max (set (map wy1 ws))) / 2 - py\<bar>"

definition centre_dist :: "rat \<Rightarrow> word \<Rightarrow> rat" where
  "centre_dist px w = \<bar>(wx0 w + wx1 w) / 2 - px\<bar>"

text \<open>The elements of a list in the order of their first occurrence.\<close>

fun firsts :: "'a list \<Rightarrow> 'a list \<Rightarrow> 'a list" where
  "firsts acc [] = acc"
| "firsts acc (x # xs) = (if x \<in> set acc then firsts acc xs else firsts (acc @ [x]) xs)"

text \<open>
  Example inputs. A file with three history rows (one provider twice, once with spaces
  around it), AI candidates with a repetition, and a form whose provider is typed in.
\<close>

definition ex_seen :: "cell \<Rightarrow> row list" where
  "ex_seen fn = (if fn = Some (str ''a.pdf'')
     then [[''filename'' \<mapsto> Some (str ''a.pdf''), ''provider'' \<mapsto> Some (str ''Acme'')],
           [''filename'' \<mapsto> Some (str ''a.pdf''), ''provider'' \<mapsto> Some (str ''Beta'')],
           [''filename'' \<mapsto> Some (str ''a.pdf''), ''provider'' \<mapsto> Some (str '' Beta '')]]
     else [])"

definition ex_ai :: "pystr \<rightharpoonup> (string \<rightharpoonup> pystr list)" where
  "ex_ai = [str ''a.pdf'' \<mapsto> [''provider'' \<mapsto> [str ''Beta'', str ''Gamma'', str ''Gamma'']]]"

definition ex_form :: form where
  "ex_form = \<lparr> year_edit = [], month_edit = [], day_edit = [], provider_edit = str ''Acme'',
               invoice_edit = [], total_edit = [], card_edit = [], taxid_edit = [], iban_edit = [] \<rparr>"

text \<open>
  A form whose provider is in no other source, and what \<^verbatim>\<open>extract_entities\<close> returns for
  a document with three supplier entities, two of them alike, and the same IBAN printed
  twice.
\<close>

definition ex_form_new :: form where
  "ex_form_new = \<lparr> year_edit = str ''2023'', month_edit = str ''02'', day_edit = str ''23'',
               provider_edit = str ''Delta'', invoice_edit = str ''R-7'', total_edit = str ''120,50'',
               card_edit = [], taxid_edit = [], iban_edit = [] \<rparr>"

definition ex_sugg :: "string \<rightharpoonup> pystr list" where
  "ex_sugg = [''provider'' \<mapsto> [str ''Beta'', str ''Gamma'', str ''Gamma''],
              ''iban'' \<mapsto> [str ''DE89370400440532013000'', str ''DE89370400440532013000'']]"

text \<open>
  The rows of a CSV file: two lines written by the program, and the same with a line in
  between that ends after its second cell.
\<close>

definition ex_rows :: "row list" where
  "ex_rows = [form_row (str ''a.pdf'') ex_form, form_row (str ''b.pdf'') ex_form_new]"

definition short_row :: row where
  "short_row = [''filename'' \<mapsto> Some (str ''s.pdf''), ''year'' \<mapsto> Some (str ''2023''),
     ''month'' \<mapsto> None, ''day'' \<mapsto> None, ''provider'' \<mapsto> None, ''invoice'' \<mapsto> None,
     ''total'' \<mapsto> None, ''card'' \<mapsto> None, ''taxid'' \<mapsto> None, ''iban'' \<mapsto> None]"

definition ex_rows_short :: "row list" where
  "ex_rows_short = [form_row (str ''a.pdf'') ex_form, short_row, form_row (str ''b.pdf'') ex_form_new]"

text \<open>A form whose provider field holds the text of the leave-unchanged marker.\<close>

definition ex_form_marker :: form where
  "ex_form_marker = \<lparr> year_edit = [], month_edit = [], day_edit = [], provider_edit = LEAVE_UNCHANGED,
               invoice_edit = [], total_edit = [], card_edit = [], taxid_edit = [], iban_edit = [] \<rparr>"

text \<open>A line of the two words \<^verbatim>\<open>"\<euro>"\<close> and \<^verbatim>\<open>"120,50"\<close>, 4 units apart.\<close>

definition euro_line :: "word list" where
  "euro_line =
     [\<lparr> wx0 = 10, wy0 = 10, wx1 = 18, wy1 = 20, wtext = [8364], wblock = 0, wline = 0, wno = 0 \<rparr>,
      \<lparr> wx0 = 22, wy0 = 10, wx1 = 60, wy1 = 20, wtext = str ''120,50'', wblock = 0, wline = 0, wno = 1 \<rparr>]"

text \<open>A line of two words that no gluing rule joins, a short one and a long one.\<close>

definition hash_line :: "word list" where
  "hash_line =
     [\<lparr> wx0 = 0, wy0 = 10, wx1 = 10, wy1 = 20, wtext = str ''#1'', wblock = 0, wline = 0, wno = 0 \<rparr>,
      \<lparr> wx0 = 20, wy0 = 10, wx1 = 100, wy1 = 20, wtext = str ''#2'', wblock = 0, wline = 0, wno = 1 \<rparr>]"

text \<open>
  A page whose only word is an ideographic space (U+3000), and a page whose only word
  starts with an em space (U+2003).
\<close>

definition blank_word :: "word list" where
  "blank_word =
     [\<lparr> wx0 = 10, wy0 = 10, wx1 = 20, wy1 = 20, wtext = [12288], wblock = 0, wline = 0, wno = 0 \<rparr>]"

definition spaced_word :: "word list" where
  "spaced_word =
     [\<lparr> wx0 = 10, wy0 = 10, wx1 = 20, wy1 = 20, wtext = [8195, 97], wblock = 0, wline = 0, wno = 0 \<rparr>]"

text \<open>Two lines of one block and a word of another block, not in reading order.\<close>

definition two_lines :: "word list" where
  "two_lines =
     [\<lparr> wx0 = 80, wy0 = 30, wx1 = 120, wy1 = 40, wtext = str ''120,50'', wblock = 0, wline = 1, wno = 1 \<rparr>,
      \<lparr> wx0 = 50, wy0 = 10, wx1 = 70, wy1 = 20, wtext = str ''due'', wblock = 0, wline = 0, wno = 1 \<rparr>,
      \<lparr> wx0 = 10, wy0 = 30, wx1 = 40, wy1 = 40, wtext = str ''EUR'', wblock = 0, wline = 1, wno = 0 \<rparr>,
      \<lparr> wx0 = 10, wy0 = 10, wx1 = 45, wy1 = 20, wtext = str ''Total'', wblock = 0, wline = 0, wno = 0 \<rparr>,
      \<lparr> wx0 = 10, wy0 = 100, wx1 = 45, wy1 = 110, wtext = str ''Page'', wblock = 1, wline = 0, wno = 0 \<rparr>]"

section \<open>Evaluation rules\<close>

text \<open>
  The sequencing combinators are evaluated left to right: their second argument is
  looked at only once the first is known.
\<close>

lemma or_else_simps [simp]:
  "or_else (Inr None) k = k"
  "or_else (Inr (Some x)) k = Inr (Some x)"
  "or_else (Inl e) k = Inl e"
  by (simp_all add: or_else_def)

lemma or_else_cong [cong]: "r = r' \<Longrightarrow> or_else r k = or_else r' k"
  by simp

lemma bind_err_simps [simp]:
  "bind_err (Inl e) f = Inl e"
  "bind_err (Inr v) f = f v"
  by (simp_all add: bind_err_def)

lemma bind_err_cong [cong]: "r = r' \<Longrightarrow> bind_err r f = bind_err r' f"
  by simp

lemmas str_eval = str_def strip_def strip_by_def strip_chars_def lower_def lower_cp_def
  is_digit_def is_space_def

lemmas rx_eval = re_match_def lit_def in_cls_def Let_def group_def

lemmas date_eval = parse_date_any_def block_ymd_def block_dmy_def block_d_mon_y_def
  block_mon_d_y_def rx_ymd_def rx_dmy_def rx_d_mon_y_def rx_mon_d_y_def rx_es_def rx_slash_def
  sep_cls_def mon_cls_def strip_accents_def strip_accents_cp_def py_int_def dec_def century_def
  MONTHS_def MONTHS_items_def rx_eval str_eval

lemmas date_v1_eval = parse_date_any_v1_def replace_commas_def block_d_mon_y_v1_def
  block_mon_d_y_v1_def rx_d_mon_y_v1_def rx_mon_d_y_v1_def mon_cls_v1_def MONTHS_v1_def
  MONTHS_v1_items_def block_ymd_def block_dmy_def rx_ymd_def rx_dmy_def rx_slash_def sep_cls_def
  py_int_def dec_def century_def rx_eval str_eval

section \<open>The date parser on the documented examples\<close>

text \<open>
  C5. \<^verbatim>\<open>parse_date_any\<close> applied to \<^verbatim>\<open>"2023-02-23"\<close>, \<^verbatim>\<open>"23/02/2023"\<close>,
  \<^verbatim>\<open>"23 Feb 2023"\<close>, \<^verbatim>\<open>"Feb 23, 2023"\<close> and \<^verbatim>\<open>"23 de febrero de 2023"\<close> returns
  the triple (2023, 2, 23) in every case.
\<close>

theorem parse_date_any_examples:
  "parse_date_any (str ''2023-02-23'') = Inr (Some (2023, 2, 23)) \<and>
   parse_date_any (str ''23/02/2023'') = Inr (Some (2023, 2, 23)) \<and>
   parse_date_any (str ''23 Feb 2023'') = Inr (Some (2023, 2, 23)) \<and>
   parse_date_any (str ''Feb 23, 2023'') = Inr (Some (2023, 2, 23)) \<and>
   parse_date_any (str ''23 de febrero de 2023'') = Inr (Some (2023, 2, 23))"
  by (simp add: date_eval)

text \<open>
  The parser of factuser-v1.py has neither the Spanish pattern nor the Spanish month names:
  it agrees on the first four inputs and returns no date on the fifth.
\<close>

theorem parse_date_any_v1_examples:
  "parse_date_any_v1 (str ''2023-02-23'') = Inr (Some (2023, 2, 23)) \<and>
   parse_date_any_v1 (str ''23/02/2023'') = Inr (Some (2023, 2, 23)) \<and>
   parse_date_any_v1 (str ''23 Feb 2023'') = Inr (Some (2023, 2, 23)) \<and>
   parse_date_any_v1 (str ''Feb 23, 2023'') = Inr (Some (2023, 2, 23)) \<and>
   parse_date_any_v1 (str ''23 de febrero de 2023'') = Inr None"
  by (simp add: date_v1_eval)

section \<open>The date parser never raises\<close>

text \<open>
  Every group a pattern of the parser captures fits its shape, so \<^verbatim>\<open>int\<close> is applied to
  non-empty strings of digits only.
\<close>

lemma rx_run_grp_free:
  "grp_free r \<Longrightarrow> (rest', caps') \<in> set (rx_run s r (rest, caps)) \<Longrightarrow> caps' = caps"
proof (induction r arbitrary: rest caps rest' caps')
  case (Cat a b)
  then show ?case by fastforce
qed (auto simp: Let_def split: list.splits if_splits)

lemma take_takeWhile_all:
  "k \<le> length (takeWhile p xs) \<Longrightarrow> list_all p (take k xs)"
  by (induction xs arbitrary: k) (auto simp: take_Cons split: nat.splits if_splits)

lemma rx_run_Rep:
  "(rest', caps') \<in> set (rx_run s (Rep cs m n) (rest, caps)) \<Longrightarrow>
   caps' = caps \<and> (\<exists>k. m \<le> k \<and> k \<le> length (takeWhile (in_cls cs) rest) \<and> rest' = drop k rest)"
proof -
  assume a: "(rest', caps') \<in> set (rx_run s (Rep cs m n) (rest, caps))"
  define avail where "avail = length (takeWhile (in_cls cs) rest)"
  define hi where "hi = (case n of None \<Rightarrow> avail | Some k \<Rightarrow> min k avail)"
  have hi: "hi \<le> avail" by (simp add: hi_def split: option.splits)
  from a have "(rest', caps') \<in> set (map (\<lambda>k. (drop k rest, caps)) (rev [m..<Suc hi]))"
    by (simp only: rx_run.simps Let_def avail_def hi_def)
  then have "(rest', caps') \<in> (\<lambda>k. (drop k rest, caps)) ` {m..<Suc hi}"
    by (simp only: set_map set_rev set_upt)
  then obtain k where "m \<le> k" "k \<le> hi" "rest' = drop k rest" "caps' = caps" by auto
  with hi show ?thesis unfolding avail_def by (intro conjI exI[of _ k]) auto
qed

lemma rx_run_Grp_Rep:
  assumes "(rest', caps') \<in> set (rx_run s (Grp (Rep cs m n)) (rest, caps))"
  shows "\<exists>w. caps' = caps @ [w] \<and> list_all (in_cls cs) w \<and> m \<le> length w \<and> rest = w @ rest'"
proof -
  from assms obtain c0 where in0: "(rest', c0) \<in> set (rx_run s (Rep cs m n) (rest, caps))"
    and caps': "caps' = c0 @ [take (length rest - length rest') rest]"
    by (auto simp del: rx_run.simps(5) simp add: rx_run.simps(7))
  from rx_run_Rep[OF in0] obtain k where k: "c0 = caps" "m \<le> k"
    "k \<le> length (takeWhile (in_cls cs) rest)" "rest' = drop k rest" by blast
  have le: "k \<le> length rest" using k(3) length_takeWhile_le[of "in_cls cs" rest] by linarith
  with k have tk: "take (length rest - length rest') rest = take k rest" by simp
  have "list_all (in_cls cs) (take k rest)"
    using k(3) by (rule take_takeWhile_all)
  moreover have "length (take k rest) = k" using le by simp
  ultimately show ?thesis using k tk caps' by (intro exI[of _ "take k rest"]) simp
qed

lemma rx_run_caps:
  "linear r \<Longrightarrow> (rest', caps') \<in> set (rx_run s r (rest, caps)) \<Longrightarrow>
   \<exists>new. caps' = caps @ new \<and> list_all2 fits (grp_shapes r) new"
proof (induction r arbitrary: rest caps rest' caps' rule: linear.induct)
  case (1 cs m n)
  from rx_run_Grp_Rep[OF 1(2)] show ?case by (auto simp: fits_def)
next
  case (3 a b)
  from 3(4) obtain mr mc where mid: "(mr, mc) \<in> set (rx_run s a (rest, caps))"
    and fin: "(rest', caps') \<in> set (rx_run s b (mr, mc))" by auto
  from 3(3) have la: "linear a" and lb: "linear b" by simp_all
  from "3.IH"(1)[OF la mid] obtain n1 where n1: "mc = caps @ n1" "list_all2 fits (grp_shapes a) n1" by blast
  from "3.IH"(2)[OF lb fin] obtain n2 where n2: "caps' = mc @ n2" "list_all2 fits (grp_shapes b) n2" by blast
  show ?case using n1 n2 by (intro exI[of _ "n1 @ n2"]) (simp add: list_all2_appendI)
next
  case (4 r)
  then show ?case using rx_run_grp_free[of r rest' caps' s rest caps] by auto
next
  case (5 a b)
  then show ?case using rx_run_grp_free[of a rest' caps' s rest caps] rx_run_grp_free[of b rest' caps' s rest caps] by auto
qed (auto simp: Let_def split: list.splits if_splits)

lemma re_match_SomeD: "re_match r s = Some m \<Longrightarrow> \<exists>rest. (rest, m) \<in> set (rx_run s r (s, []))"
  by (auto simp: re_match_def split: list.splits)

lemma re_match_shapes:
  "linear r \<Longrightarrow> re_match r s = Some m \<Longrightarrow> list_all2 fits (grp_shapes r) m"
  using rx_run_caps[of r _ m s s "[]"] by (auto dest!: re_match_SomeD)

lemma fits_Dig_py_int: "fits ([Dig], m) w \<Longrightarrow> 0 < m \<Longrightarrow> \<exists>v. py_int w = Inr v"
  by (auto simp: fits_def py_int_def in_cls_def list_all_iff)

lemma linear_patterns:
  "linear rx_ymd" "linear rx_dmy" "linear rx_d_mon_y" "linear rx_mon_d_y" "linear rx_es"
  "linear rx_slash"
  by (simp_all add: rx_ymd_def rx_dmy_def rx_d_mon_y_def rx_mon_d_y_def rx_es_def rx_slash_def
        lit_def)

lemma grp_shapes_patterns:
  "grp_shapes rx_ymd = [([Dig], 4), ([Dig], 1), ([Dig], 1)]"
  "grp_shapes rx_dmy = [([Dig], 1), ([Dig], 1), ([Dig], 2)]"
  "grp_shapes rx_d_mon_y = [([Dig], 1), (mon_cls, 1), ([Dig], 2)]"
  "grp_shapes rx_mon_d_y = [(mon_cls, 1), ([Dig], 1), ([Dig], 2)]"
  "grp_shapes rx_es = [([Dig], 1), (mon_cls, 1), ([Dig], 2)]"
  "grp_shapes rx_slash = [([Dig], 1), ([Dig], 1), ([Dig], 2)]"
  by (simp_all add: rx_ymd_def rx_dmy_def rx_d_mon_y_def rx_mon_d_y_def rx_es_def rx_slash_def
        lit_def)

lemma three_groups:
  assumes "linear r" "grp_shapes r = [s1, s2, s3]" "re_match r s = Some m"
  obtains a b c where "m = [a, b, c]" "fits s1 a" "fits s2 b" "fits s3 c"
proof -
  from re_match_shapes[OF assms(1,3)] assms(2) have "list_all2 fits [s1, s2, s3] m" by simp
  then show ?thesis using that by (auto simp: list_all2_Cons1)
qed

lemma block_ymd_total: "\<exists>v. block_ymd s = Inr v"
proof (cases "re_match rx_ymd s")
  case None
  then show ?thesis by (simp add: block_ymd_def)
next
  case (Some m)
  from three_groups[OF linear_patterns(1) grp_shapes_patterns(1) Some]
  obtain a b c where m: "m = [a, b, c]" and f: "fits ([Dig], 4) a" "fits ([Dig], 1) b" "fits ([Dig], 1) c"
    by blast
  from f obtain y mo d where "py_int a = Inr y" "py_int b = Inr mo" "py_int c = Inr d"
    by (meson fits_Dig_py_int zero_less_numeral zero_less_one)
  then show ?thesis using Some m by (simp add: block_ymd_def group_def)
qed

lemma block_dmy_total:
  assumes "linear r" "grp_shapes r = [([Dig], 1), ([Dig], 1), ([Dig], 2)]"
  shows "\<exists>v. block_dmy r s = Inr v"
proof (cases "re_match r s")
  case None
  then show ?thesis by (simp add: block_dmy_def)
next
  case (Some m)
  from three_groups[OF assms Some]
  obtain a b c where m: "m = [a, b, c]" and f: "fits ([Dig], 1) a" "fits ([Dig], 1) b" "fits ([Dig], 2) c"
    by blast
  from f obtain d mo y where "py_int a = Inr d" "py_int b = Inr mo" "py_int c = Inr y"
    by (meson fits_Dig_py_int zero_less_numeral zero_less_one)
  then show ?thesis using Some m by (simp add: block_dmy_def group_def)
qed

lemma block_d_mon_y_total:
  assumes "linear r" "grp_shapes r = [([Dig], 1), (mon_cls, 1), ([Dig], 2)]"
  shows "\<exists>v. block_d_mon_y r s = Inr v"
proof (cases "re_match r s")
  case None
  then show ?thesis by (simp add: block_d_mon_y_def)
next
  case (Some m)
  from three_groups[OF assms Some]
  obtain a b c where m: "m = [a, b, c]" and f: "fits ([Dig], 1) a" "fits ([Dig], 2) c"
    by blast
  from f obtain d y where "py_int a = Inr d" "py_int c = Inr y"
    by (meson fits_Dig_py_int zero_less_numeral zero_less_one)
  then show ?thesis using Some m by (simp add: block_d_mon_y_def group_def split: option.splits)
qed

lemma block_mon_d_y_total: "\<exists>v. block_mon_d_y s = Inr v"
proof (cases "re_match rx_mon_d_y s")
  case None
  then show ?thesis by (simp add: block_mon_d_y_def)
next
  case (Some m)
  from three_groups[OF linear_patterns(4) grp_shapes_patterns(4) Some]
  obtain a b c where m: "m = [a, b, c]" and f: "fits ([Dig], 1) b" "fits ([Dig], 2) c"
    by blast
  from f obtain d y where "py_int b = Inr d" "py_int c = Inr y"
    by (meson fits_Dig_py_int zero_less_numeral zero_less_one)
  then show ?thesis using Some m by (simp add: block_mon_d_y_def group_def split: option.splits)
qed

lemma or_else_total:
  "\<exists>v. a = Inr v \<Longrightarrow> \<exists>v. b = Inr v \<Longrightarrow> \<exists>v. or_else a b = Inr v"
  by (auto simp: or_else_def split: option.splits)

lemma parse_date_any_total: "\<exists>r. parse_date_any s = Inr r"
proof -
  have "\<exists>v. or_else (block_ymd t)
               (or_else (block_dmy rx_dmy t)
               (or_else (block_d_mon_y rx_d_mon_y t)
               (or_else (block_mon_d_y t)
               (or_else (block_d_mon_y rx_es t)
               (or_else (block_dmy rx_slash t)
               (Inr None)))))) = Inr v" for t
    by (intro or_else_total block_ymd_total block_mon_d_y_total
          block_dmy_total[OF linear_patterns(2) grp_shapes_patterns(2)]
          block_dmy_total[OF linear_patterns(6) grp_shapes_patterns(6)]
          block_d_mon_y_total[OF linear_patterns(3) grp_shapes_patterns(3)]
          block_d_mon_y_total[OF linear_patterns(5) grp_shapes_patterns(5)]) simp
  then show ?thesis by (simp add: parse_date_any_def Let_def)
qed

lemma linear_patterns_v1: "linear rx_d_mon_y_v1" "linear rx_mon_d_y_v1"
  by (simp_all add: rx_d_mon_y_v1_def rx_mon_d_y_v1_def)

lemma grp_shapes_patterns_v1:
  "grp_shapes rx_d_mon_y_v1 = [([Dig], 1), (mon_cls_v1, 1), ([Dig], 2)]"
  "grp_shapes rx_mon_d_y_v1 = [(mon_cls_v1, 1), ([Dig], 1), ([Dig], 2)]"
  by (simp_all add: rx_d_mon_y_v1_def rx_mon_d_y_v1_def)

lemma block_d_mon_y_v1_total: "\<exists>v. block_d_mon_y_v1 s = Inr v"
proof (cases "re_match rx_d_mon_y_v1 s")
  case None
  then show ?thesis by (simp add: block_d_mon_y_v1_def)
next
  case (Some m)
  from three_groups[OF linear_patterns_v1(1) grp_shapes_patterns_v1(1) Some]
  obtain a b c where m: "m = [a, b, c]" and f: "fits ([Dig], 1) a" "fits ([Dig], 2) c"
    by blast
  from f obtain d y where "py_int a = Inr d" "py_int c = Inr y"
    by (meson fits_Dig_py_int zero_less_numeral zero_less_one)
  then show ?thesis using Some m by (simp add: block_d_mon_y_v1_def group_def split: option.splits)
qed

lemma block_mon_d_y_v1_total: "\<exists>v. block_mon_d_y_v1 s = Inr v"
proof (cases "re_match rx_mon_d_y_v1 s")
  case None
  then show ?thesis by (simp add: block_mon_d_y_v1_def)
next
  case (Some m)
  from three_groups[OF linear_patterns_v1(2) grp_shapes_patterns_v1(2) Some]
  obtain a b c where m: "m = [a, b, c]" and f: "fits ([Dig], 1) b" "fits ([Dig], 2) c"
    by blast
  from f obtain d y where "py_int b = Inr d" "py_int c = Inr y"
    by (meson fits_Dig_py_int zero_less_numeral zero_less_one)
  then show ?thesis using Some m by (simp add: block_mon_d_y_v1_def group_def split: option.splits)
qed

lemma parse_date_any_v1_total: "\<exists>r. parse_date_any_v1 s = Inr r"
proof -
  have "\<exists>v. or_else (block_ymd t)
               (or_else (block_dmy rx_dmy t)
               (or_else (block_d_mon_y_v1 t)
               (or_else (block_mon_d_y_v1 t)
               (or_else (block_dmy rx_slash t)
               (Inr None))))) = Inr v" for t
    by (intro or_else_total block_ymd_total block_mon_d_y_v1_total block_d_mon_y_v1_total
          block_dmy_total[OF linear_patterns(2) grp_shapes_patterns(2)]
          block_dmy_total[OF linear_patterns(6) grp_shapes_patterns(6)]) simp
  then show ?thesis by (simp add: parse_date_any_v1_def Let_def)
qed

text \<open>
  C9. For every input string the date parser returns without raising (the result is an
  optional triple, \<open>Inr\<close> of it; \<open>Inl\<close> would be an exception), and it returns no
  date for \<^verbatim>\<open>"not a date"\<close> and for the empty string. This holds of the parser of
  factuser-v2.py and of the one of factuser-v1.py.
\<close>

theorem parse_date_any_never_raises:
  "(\<exists>r. parse_date_any s = Inr r) \<and>
   parse_date_any (str ''not a date'') = Inr None \<and>
   parse_date_any (str []) = Inr None \<and>
   (\<exists>r. parse_date_any_v1 s = Inr r) \<and>
   parse_date_any_v1 (str ''not a date'') = Inr None \<and>
   parse_date_any_v1 (str []) = Inr None"
proof (intro conjI)
  show "\<exists>r. parse_date_any s = Inr r" by (rule parse_date_any_total)
  show "parse_date_any (str ''not a date'') = Inr None" by (simp add: date_eval)
  show "parse_date_any (str []) = Inr None" by (simp add: parse_date_any_def str_def)
  show "\<exists>r. parse_date_any_v1 s = Inr r" by (rule parse_date_any_v1_total)
  show "parse_date_any_v1 (str ''not a date'') = Inr None" by (simp add: date_v1_eval)
  show "parse_date_any_v1 (str []) = Inr None"
    by (simp add: parse_date_any_v1_def str_def strip_def strip_by_def)
qed

section \<open>The date parser checks no calendar range\<close>

lemma py_int_dec: "t \<noteq> [] \<Longrightarrow> list_all is_digit t \<Longrightarrow> py_int t = Inr (dec t)"
  by (simp add: py_int_def)

lemma in_cls_single [simp]: "in_cls [Dig] = is_digit" "in_cls [Spc] = is_space"
  by (auto simp: in_cls_def fun_eq_iff)

lemma digit_facts:
  "is_digit c \<Longrightarrow> \<not> is_space c"
  "is_digit c \<Longrightarrow> \<not> in_cls sep_cls c"
  "is_digit c \<Longrightarrow> c \<noteq> 10"
  "is_digit c \<Longrightarrow> c \<noteq> 44 \<and> c \<noteq> 9"
  "is_digit c \<Longrightarrow> lower_cp c = c"
  "is_digit c \<Longrightarrow> strip_accents_cp c = c"
  by (auto simp: is_digit_def is_space_def in_cls_def sep_cls_def lower_cp_def strip_accents_cp_def)

lemma sep_facts:
  "in_cls sep_cls c \<Longrightarrow> \<not> is_space c"
  "in_cls sep_cls c \<Longrightarrow> \<not> is_digit c"
  "in_cls sep_cls c \<Longrightarrow> c \<noteq> 44 \<and> c \<noteq> 9"
  "in_cls sep_cls c \<Longrightarrow> lower_cp c = c"
  "in_cls sep_cls c \<Longrightarrow> strip_accents_cp c = c"
  by (auto simp: is_digit_def is_space_def in_cls_def sep_cls_def lower_cp_def strip_accents_cp_def)

lemma len12: "length xs = 1 \<or> length xs = 2 \<Longrightarrow> (\<exists>a. xs = [a]) \<or> (\<exists>a b. xs = [a, b])"
  by (cases xs; cases "tl xs"; cases "tl (tl xs)") auto

lemma len4: "length xs = 4 \<Longrightarrow> \<exists>a b c d. xs = [a, b, c, d]"
  by (auto simp: length_Suc_conv numeral_eq_Suc)

text \<open>
  C10, as the code has it. The parser validates no calendar range: for every input
  \<open>D sep M sep YYYY\<close> with one or two digits in \<open>D\<close> and in \<open>M\<close>, four digits in
  \<open>YYYY\<close> and separators among \<^verbatim>\<open>.\<close>, \<^verbatim>\<open>-\<close> and \<^verbatim>\<open>/\<close>, it returns the numbers
  \<open>M\<close> and \<open>D\<close> as they are, whatever their size, and the year \<open>YYYY\<close> when that
  number is at least 100, \<open>YYYY + 2000\<close> otherwise (line 98 tests the value of the year,
  not the number of its digits).
\<close>

theorem parse_date_any_no_range_check:
  assumes D: "list_all is_digit D" "length D = 1 \<or> length D = 2"
      and M: "list_all is_digit M" "length M = 1 \<or> length M = 2"
      and Y: "list_all is_digit Y" "length Y = 4"
      and s: "in_cls sep_cls s1" "in_cls sep_cls s2"
  shows "parse_date_any (D @ [s1] @ M @ [s2] @ Y) =
           Inr (Some (if dec Y < 100 then dec Y + 2000 else dec Y, dec M, dec D))"
proof -
  from len4[OF Y(2)] obtain y1 y2 y3 y4 where Yl: "Y = [y1, y2, y3, y4]" by blast
  note f = digit_facts sep_facts
  note ev = parse_date_any_def block_ymd_def block_dmy_def re_match_def rx_ymd_def rx_dmy_def
    Let_def strip_def strip_by_def lower_def strip_accents_def group_def century_def py_int_dec
  from len12[OF D(2)] len12[OF M(2)] show ?thesis
  proof (elim disjE exE)
    fix d1 m1 assume "D = [d1]" "M = [m1]"
    then show ?thesis using D M Y s Yl by (simp add: ev f)
  next
    fix d1 m1 m2 assume "D = [d1]" "M = [m1, m2]"
    then show ?thesis using D M Y s Yl by (simp add: ev f)
  next
    fix d1 d2 m1 assume "D = [d1, d2]" "M = [m1]"
    then show ?thesis using D M Y s Yl by (simp add: ev f)
  next
    fix d1 d2 m1 m2 assume "D = [d1, d2]" "M = [m1, m2]"
    then show ?thesis using D M Y s Yl by (simp add: ev f)
  qed
qed

theorem parse_date_any_no_range_check_witness:
  "list_all is_digit (str ''99'') \<and> list_all is_digit (str ''2099'') \<and>
   in_cls sep_cls (of_char CHR ''/'') \<and>
   parse_date_any (str ''99/99/2099'') = Inr (Some (2099, 99, 99))"
  using parse_date_any_no_range_check [of "str ''99''" "str ''99''" "str ''2099''"
      "of_char CHR ''/''" "of_char CHR ''/''"]
  by (simp add: str_def dec_def is_digit_def in_cls_def sep_cls_def)

text \<open>
  The claim as stated, with the year returned as written, fails on a four-digit year
  below 0100: \<^verbatim>\<open>"1/1/0099"\<close> has the year 99 and parses to the year 2099.
\<close>

theorem parse_date_any_year_counterexample:
  "dec (str ''0099'') = 99 \<and> parse_date_any (str ''1/1/0099'') = Inr (Some (2099, 1, 1))"
  by (simp add: date_eval)

section \<open>Suggestion lists\<close>

subsection \<open>Trimming\<close>

lemma strip_by_fixed:
  assumes "xs = [] \<or> (\<not> p (hd xs) \<and> \<not> p (last xs))"
  shows "strip_by p xs = xs"
proof (cases "xs = []")
  case True
  then show ?thesis by (simp add: strip_by_def)
next
  case False
  with assms have h: "\<not> p (hd xs)" and l: "\<not> p (last xs)" by auto
  have 1: "dropWhile p xs = xs" using h by (simp add: dropWhile_eq_self_iff)
  have "hd (rev xs) = last xs" using False by (simp add: hd_rev)
  then have 2: "dropWhile p (rev xs) = rev xs" using l by (simp add: dropWhile_eq_self_iff)
  show ?thesis by (simp add: strip_by_def 1 2)
qed

lemma strip_by_shape:
  "strip_by p s = [] \<or> (\<not> p (hd (strip_by p s)) \<and> \<not> p (last (strip_by p s)))"
proof -
  define t where "t = dropWhile p s"
  define u where "u = dropWhile p (rev t)"
  have t: "t = [] \<or> \<not> p (hd t)" unfolding t_def by (metis hd_dropWhile)
  have u: "u = [] \<or> \<not> p (hd u)" unfolding u_def by (metis hd_dropWhile)
  have su: "strip_by p s = rev u" by (simp add: strip_by_def t_def u_def)
  show ?thesis
  proof (cases "u = []")
    case True
    then show ?thesis by (simp add: su)
  next
    case False
    then have lastu: "\<not> p (last (rev u))" using u by (simp add: last_rev)
    obtain pre where pre: "rev t = pre @ u" unfolding u_def
      by (metis takeWhile_dropWhile_id)
    from False have tne: "t \<noteq> []" using pre by auto
    have "t = rev u @ rev pre" using pre by (metis rev_append rev_rev_ident)
    then have "hd t = hd (rev u)" using False by simp
    with t tne have "\<not> p (hd (rev u))" by simp
    with lastu show ?thesis by (simp add: su)
  qed
qed

lemma strip_by_idem: "strip_by p (strip_by p s) = strip_by p s"
  using strip_by_shape[of p s] by (rule strip_by_fixed)

lemma strip_idem [simp]: "strip (strip s) = strip s"
  by (simp add: strip_def strip_by_idem)

lemma strip_Nil [simp]: "strip [] = []"
  by (simp add: strip_def strip_by_def)

subsection \<open>The ordered set\<close>

lemma fold_add:
  "fold add vs (acc, set acc) =
     (append_new acc (map strip vs), set (append_new acc (map strip vs)))"
proof (induction vs arbitrary: acc)
  case Nil
  then show ?case by simp
next
  case (Cons v vs)
  show ?case
  proof (cases "strip v = [] \<or> strip v \<in> set acc")
    case True
    then show ?thesis using Cons.IH[of acc] by (auto simp: add_def Let_def)
  next
    case False
    then have "add v (acc, set acc) = (acc @ [strip v], set (acc @ [strip v]))"
      by (simp add: add_def Let_def)
    then show ?thesis using Cons.IH[of "acc @ [strip v]"] False by simp
  qed
qed

lemma append_new_set: "set (append_new acc vs) = set acc \<union> (set vs - {[]})"
  by (induction vs arbitrary: acc) auto

lemma append_new_distinct:
  "distinct acc \<Longrightarrow> distinct (append_new acc vs)"
  by (induction vs arbitrary: acc) auto

lemma append_new_nonblank:
  "[] \<notin> set acc \<Longrightarrow> [] \<notin> set (append_new acc vs)"
  by (simp add: append_new_set)

lemma append_new_shift:
  "append_new (acc0 @ acc) vs = acc0 @ append_new acc (filter (\<lambda>v. v \<notin> set acc0) vs)"
proof (induction vs arbitrary: acc)
  case Nil
  then show ?case by simp
next
  case (Cons v vs)
  show ?case
  proof (cases "v = [] \<or> v \<in> set acc0 \<or> v \<in> set acc")
    case True
    then show ?thesis using Cons.IH[of acc] by auto
  next
    case False
    then show ?thesis using Cons.IH[of "acc @ [v]"] by simp
  qed
qed

lemma append_new_split:
  "append_new acc vs = acc @ append_new [] (filter (\<lambda>v. v \<notin> set acc) vs)"
  using append_new_shift[of acc "[]" vs] by simp

lemma append_new_fixed:
  "distinct vs \<Longrightarrow> [] \<notin> set vs \<Longrightarrow> set acc \<inter> set vs = {} \<Longrightarrow> append_new acc vs = acc @ vs"
proof (induction vs arbitrary: acc)
  case Nil
  then show ?case by simp
next
  case (Cons v vs)
  then have "append_new (acc @ [v]) vs = (acc @ [v]) @ vs"
    by (intro Cons.IH) auto
  then show ?case using Cons.prems by auto
qed

subsection \<open>Counters\<close>

lemma counter_incr_keys:
  "map fst (counter_incr cnt k) = (if k \<in> set (map fst cnt) then map fst cnt else map fst cnt @ [k])"
  by (induction cnt) (auto split: if_splits)

lemma counter_incr_count:
  "count_of (counter_incr cnt k) k' = count_of cnt k' + (if k' = k then 1 else 0)"
  by (induction cnt) (auto simp: count_of_def)

lemma counter_incr_distinct:
  "distinct (map fst cnt) \<Longrightarrow> distinct (map fst (counter_incr cnt k))"
  by (simp add: counter_incr_keys)

lemma fold_counter:
  "distinct (map fst cnt) \<Longrightarrow>
   distinct (map fst (fold (\<lambda>v c. counter_incr c v) vs cnt)) \<and>
   set (map fst (fold (\<lambda>v c. counter_incr c v) vs cnt)) = set (map fst cnt) \<union> set vs \<and>
   (\<forall>k. count_of (fold (\<lambda>v c. counter_incr c v) vs cnt) k = count_of cnt k + count_list vs k)"
proof (induction vs arbitrary: cnt)
  case Nil
  then show ?case by simp
next
  case (Cons v vs)
  from Cons.IH[OF counter_incr_distinct[OF Cons.prems, of v]]
  show ?case by (auto simp: counter_incr_keys counter_incr_count)
qed

lemma fold_cond:
  "fold (\<lambda>r c. let v = g r in if v \<noteq> [] then h c v else c) rows c0 =
   fold (\<lambda>v c. h c v) (filter (\<lambda>v. v \<noteq> []) (map g rows)) c0"
  by (induction rows arbitrary: c0) (auto simp: Let_def)

lemma count_values_alt:
  "count_values rows field =
   fold (\<lambda>v c. counter_incr c v) (filter (\<lambda>v. v \<noteq> []) (map (\<lambda>r. field_value r field) rows)) []"
  unfolding count_values_def by (rule fold_cond)

lemma count_list_filter_nonblank:
  "v \<noteq> [] \<Longrightarrow> count_list (filter (\<lambda>v. v \<noteq> []) xs) v = count_list xs v"
  by (induction xs) auto

lemma count_of_entry:
  "distinct (map fst cnt) \<Longrightarrow> kv \<in> set cnt \<Longrightarrow> count_of cnt (fst kv) = snd kv"
  by (cases kv) (simp add: count_of_def)

lemma count_values_props:
  "distinct (map fst (count_values rows field))"
  "set (map fst (count_values rows field)) = {v. v \<noteq> [] \<and> v \<in> (\<lambda>r. field_value r field) ` set rows}"
  "kv \<in> set (count_values rows field) \<Longrightarrow> snd kv = file_freq rows field (fst kv)"
proof -
  let ?vals = "filter (\<lambda>v. v \<noteq> []) (map (\<lambda>r. field_value r field) rows)"
  have f: "distinct (map fst (count_values rows field)) \<and>
     set (map fst (count_values rows field)) = set (map fst ([]::(pystr \<times> nat) list)) \<union> set ?vals \<and>
     (\<forall>k. count_of (count_values rows field) k = count_of [] k + count_list ?vals k)"
    unfolding count_values_alt by (rule fold_counter) simp
  then show d: "distinct (map fst (count_values rows field))" by simp
  from f show k: "set (map fst (count_values rows field)) = {v. v \<noteq> [] \<and> v \<in> (\<lambda>r. field_value r field) ` set rows}"
    by auto
  assume kv: "kv \<in> set (count_values rows field)"
  then have "fst kv \<in> set (map fst (count_values rows field))" by force
  with k have ne: "fst kv \<noteq> []" by auto
  from f have "count_of (count_values rows field) (fst kv) = count_list ?vals (fst kv)"
    by (simp add: count_of_def)
  with count_of_entry[OF d kv] ne show "snd kv = file_freq rows field (fst kv)"
    by (simp add: file_freq_def count_list_filter_nonblank)
qed

lemma most_common_props:
  "set (most_common cnt) = set cnt"
  "distinct (map fst cnt) \<Longrightarrow> distinct (map fst (most_common cnt))"
  "sorted_wrt (\<lambda>a b. snd a \<ge> snd b) (most_common cnt)"
proof -
  show "set (most_common cnt) = set cnt" by (simp add: most_common_def)
  show "distinct (map fst (most_common cnt))" if "distinct (map fst cnt)"
    using that by (simp add: most_common_def distinct_map)
  have "sorted (map (\<lambda>kv. - int (snd kv)) (most_common cnt))"
    unfolding most_common_def by (rule sorted_sort_key)
  then show "sorted_wrt (\<lambda>a b. snd a \<ge> snd b) (most_common cnt)"
    by (simp add: sorted_map) 
qed

lemma csv_top_props:
  "distinct (csv_top_for_file seen filename field)"
  "set (csv_top_for_file seen filename field) =
     {v. v \<noteq> [] \<and> v \<in> (\<lambda>r. field_value r field) ` set (seen (Some filename))}"
  "sorted_wrt (\<lambda>u v. file_freq (seen (Some filename)) field u \<ge> file_freq (seen (Some filename)) field v)
     (csv_top_for_file seen filename field)"
proof -
  let ?rows = "seen (Some filename)"
  let ?cnt = "count_values ?rows field"
  have top: "csv_top_for_file seen filename field = map fst (most_common ?cnt)"
    by (auto simp: csv_top_for_file_def Let_def count_values_def most_common_def)
  show "distinct (csv_top_for_file seen filename field)"
    unfolding top by (rule most_common_props(2)[OF count_values_props(1)])
  show "set (csv_top_for_file seen filename field) =
     {v. v \<noteq> [] \<and> v \<in> (\<lambda>r. field_value r field) ` set (seen (Some filename))}"
    unfolding top using count_values_props(2)[of ?rows field]
    by (simp add: most_common_props(1))
  have "sorted_wrt (\<lambda>a b. file_freq ?rows field (fst a) \<ge> file_freq ?rows field (fst b)) (most_common ?cnt)"
  proof (rule sorted_wrt_mono_rel[OF _ most_common_props(3)])
    fix a b assume "a \<in> set (most_common ?cnt)" "b \<in> set (most_common ?cnt)" "snd b \<le> snd a"
    then show "file_freq ?rows field (fst b) \<le> file_freq ?rows field (fst a)"
      using count_values_props(3)[of a ?rows field] count_values_props(3)[of b ?rows field]
      by (simp add: most_common_props(1))
  qed
  then show "sorted_wrt (\<lambda>u v. file_freq ?rows field u \<ge> file_freq ?rows field v)
     (csv_top_for_file seen filename field)"
    unfolding top by (simp add: sorted_wrt_map)
qed

lemma field_value_stripped: "strip (field_value r field) = field_value r field"
  by (simp add: field_value_def)

lemma csv_top_stripped: "map strip (csv_top_for_file seen filename field) = csv_top_for_file seen filename field"
proof -
  have "\<forall>v \<in> set (csv_top_for_file seen filename field). strip v = v"
    using csv_top_props(2)[of seen filename field] field_value_stripped by auto
  then show ?thesis by (simp add: map_idI)
qed

subsection \<open>The combo of one key\<close>

lemma populate_combo_items:
  "items (populate_combo H ai cur) = build_spec (map strip H) (map strip ai) (strip cur)"
proof -
  define X where "X = append_new (append_new [] (map strip H)) (map strip ai)"
  have st2: "fold add ai (fold add H ([], {})) = (X, set X)"
    using fold_add[of H "[]"] fold_add[of ai "append_new [] (map strip H)"] by (simp add: X_def)
  have last: "fst (if cur \<noteq> [] then add cur (X, set X) else (X, set X)) =
      append_new X (if strip cur \<noteq> [] then [strip cur] else [])"
    by (auto simp: add_def Let_def)
  have "items (populate_combo H ai cur) =
      fst (if cur \<noteq> [] then add cur (fold add ai (fold add H ([], {})))
           else fold add ai (fold add H ([], {}))) @ [LEAVE_UNCHANGED, CLEAR_FIELD]"
    by (simp add: populate_combo_def Let_def)
  also have "\<dots> = fst (if cur \<noteq> [] then add cur (X, set X) else (X, set X))
       @ [LEAVE_UNCHANGED, CLEAR_FIELD]"
    by (simp only: st2)
  also have "\<dots> = append_new X (if strip cur \<noteq> [] then [strip cur] else [])
       @ [LEAVE_UNCHANGED, CLEAR_FIELD]"
    by (simp only: last)
  finally show ?thesis by (simp only: build_spec_def X_def)
qed

lemma build_spec_prefix:
  assumes "distinct H" "[] \<notin> set H"
  shows "build_spec H A c =
     (H @ append_new [] (filter (\<lambda>v. v \<notin> set H) A) @
        (if c \<noteq> [] \<and> c \<notin> set H \<and> c \<notin> set A then [c] else []))
     @ [LEAVE_UNCHANGED, CLEAR_FIELD]"
proof -
  have h: "append_new [] H = H" using append_new_fixed[of H "[]"] assms by simp
  have a: "append_new H A = H @ append_new [] (filter (\<lambda>v. v \<notin> set H) A)"
    by (rule append_new_split)
  have c: "append_new (append_new H A) (if c \<noteq> [] then [c] else []) =
        append_new H A @ (if c \<noteq> [] \<and> c \<notin> set H \<and> c \<notin> set A then [c] else [])"
    by (auto simp: append_new_set)
  have "build_spec H A c =
      append_new H A @ (if c \<noteq> [] \<and> c \<notin> set H \<and> c \<notin> set A then [c] else [])
        @ [LEAVE_UNCHANGED, CLEAR_FIELD]"
    by (simp only: build_spec_def h c append_assoc)
  also have "\<dots> = (H @ append_new [] (filter (\<lambda>v. v \<notin> set H) A) @
        (if c \<noteq> [] \<and> c \<notin> set H \<and> c \<notin> set A then [c] else []))
     @ [LEAVE_UNCHANGED, CLEAR_FIELD]"
    by (subst a) simp
  finally show ?thesis .
qed

lemma build_spec_candidates:
  "\<exists>P. build_spec H A c = P @ [LEAVE_UNCHANGED, CLEAR_FIELD] \<and> distinct P \<and> [] \<notin> set P \<and>
       set P = {v. v \<noteq> [] \<and> (v \<in> set H \<or> v \<in> set A \<or> v = c)}"
proof -
  let ?P = "append_new (append_new (append_new [] H) A) (if c \<noteq> [] then [c] else [])"
  have "distinct ?P" by (intro append_new_distinct) simp
  moreover have "[] \<notin> set ?P" by (intro append_new_nonblank) simp
  moreover have "set ?P = {v. v \<noteq> [] \<and> (v \<in> set H \<or> v \<in> set A \<or> v = c)}"
    by (auto simp: append_new_set)
  ultimately show ?thesis unfolding build_spec_def by blast
qed

lemma populate_entry:
  "key \<in> set sugg_keys \<Longrightarrow>
   map_of (populate_ai_from_sources seen ai_cache f filename) key =
     Some (populate_combo (csv_top_for_file seen filename key)
             (ai_vals_for ai_cache filename key) (current_value_for f key))"
  by (simp add: populate_ai_from_sources_def map_of_map_restrict)

text \<open>
  What \<^verbatim>\<open>populate_ai_from_sources\<close>, the builder that \<^verbatim>\<open>render_current\<close> calls, does. For
  every file name and field it builds the list
  \<open>P @ [leave-unchanged, clear-field]\<close>, where \<open>P\<close> is: the history values \<open>H\<close> of the file
  (distinct, non-blank, ranked by descending per-file frequency); then the AI candidates that
  are not in \<open>H\<close>, in extraction order, blanks and repetitions skipped; then the current
  value if it is non-empty and in neither. This is the ordered set of the specification
  (\<open>build_spec\<close>), every value of \<open>P\<close> occurs in it once, and a value of several sources
  stands where its first source puts it. Values are compared and added trimmed, as line 565
  does; the values the loaders produce are trimmed already.
\<close>

theorem suggestion_list_order:
  assumes "key \<in> set sugg_keys"
  shows "\<exists>cb. map_of (populate_ai_from_sources seen ai_cache f filename) key = Some cb \<and>
     (let H = csv_top_for_file seen filename key;
          A = map strip (ai_vals_for ai_cache filename key);
          c = strip (current_value_for f key);
          P = H @ append_new [] (filter (\<lambda>v. v \<notin> set H) A) @
                (if c \<noteq> [] \<and> c \<notin> set H \<and> c \<notin> set A then [c] else [])
      in items cb = P @ [LEAVE_UNCHANGED, CLEAR_FIELD] \<and>
         items cb = build_spec H A c \<and>
         distinct P \<and> [] \<notin> set P \<and>
         set P = {v. v \<noteq> [] \<and> (v \<in> set H \<or> v \<in> set A \<or> v = c)} \<and>
         distinct H \<and>
         set H = {v. v \<noteq> [] \<and> v \<in> (\<lambda>r. field_value r key) ` set (seen (Some filename))} \<and>
         sorted_wrt (\<lambda>u v. file_freq (seen (Some filename)) key u \<ge> file_freq (seen (Some filename)) key v) H)"
proof -
  let ?H = "csv_top_for_file seen filename key"
  let ?A = "map strip (ai_vals_for ai_cache filename key)"
  let ?c = "strip (current_value_for f key)"
  let ?cb = "populate_combo ?H (ai_vals_for ai_cache filename key) (current_value_for f key)"
  let ?P = "?H @ append_new [] (filter (\<lambda>v. v \<notin> set ?H) ?A) @
                (if ?c \<noteq> [] \<and> ?c \<notin> set ?H \<and> ?c \<notin> set ?A then [?c] else [])"
  have dH: "distinct ?H" by (rule csv_top_props(1))
  have sH: "set ?H = {v. v \<noteq> [] \<and> v \<in> (\<lambda>r. field_value r key) ` set (seen (Some filename))}"
    by (rule csv_top_props(2))
  then have nH: "[] \<notin> set ?H" by simp
  have 1: "items ?cb = build_spec ?H ?A ?c"
    by (simp add: populate_combo_items csv_top_stripped)
  have 2: "build_spec ?H ?A ?c = ?P @ [LEAVE_UNCHANGED, CLEAR_FIELD]"
    by (rule build_spec_prefix[OF dH nH])
  from build_spec_candidates[of ?H ?A ?c] obtain P' where
    P': "build_spec ?H ?A ?c = P' @ [LEAVE_UNCHANGED, CLEAR_FIELD]" "distinct P'" "[] \<notin> set P'"
        "set P' = {v. v \<noteq> [] \<and> (v \<in> set ?H \<or> v \<in> set ?A \<or> v = ?c)}" by blast
  from P'(1) 2 have eq: "P' = ?P" by simp
  have 3: "distinct ?P" "[] \<notin> set ?P"
    "set ?P = {v. v \<noteq> [] \<and> (v \<in> set ?H \<or> v \<in> set ?A \<or> v = ?c)}"
    using P'(2,3,4) unfolding eq by blast+
  show ?thesis
    unfolding Let_def
    apply (rule exI[of _ ?cb])
    apply (intro conjI)
            apply (rule populate_entry[OF assms])
           apply (simp only: 1 2)
          apply (rule 1)
         apply (rule 3(1))
        apply (rule 3(2))
       apply (rule 3(3))
      apply (rule dH)
     apply (rule sH)
    apply (rule csv_top_props(3))
    done
qed

lemmas sugg_eval = csv_top_for_file_def count_values_def most_common_def field_value_def
  ai_vals_for_def current_value_for_def sugg_keys_def ex_seen_def ex_ai_def ex_form_def
  str_eval Let_def LEAVE_UNCHANGED_def CLEAR_FIELD_def

lemma ex_H: "csv_top_for_file ex_seen (str ''a.pdf'') ''provider'' = [str ''Beta'', str ''Acme'']"
  by (simp add: sugg_eval)

lemma ex_A: "map strip (ai_vals_for ex_ai (str ''a.pdf'') ''provider'') = [str ''Beta'', str ''Gamma'', str ''Gamma'']"
  by (simp add: sugg_eval)

lemma ex_c: "strip (current_value_for ex_form ''provider'') = str ''Acme''"
  by (simp add: sugg_eval)

lemma ex_c_new: "strip (current_value_for ex_form_new ''provider'') = str ''Delta''"
  by (simp add: sugg_eval ex_form_new_def)

theorem suggestion_list_order_witness:
  "''provider'' \<in> set sugg_keys \<and>
   (\<exists>cb. map_of (populate_ai_from_sources ex_seen ex_ai ex_form_new (str ''a.pdf'')) ''provider'' = Some cb \<and>
      items cb = [str ''Beta'', str ''Acme'', str ''Gamma'', str ''Delta'', LEAVE_UNCHANGED, CLEAR_FIELD])"
proof -
  have k: "''provider'' \<in> set sugg_keys" by (simp add: sugg_keys_def)
  from suggestion_list_order[OF k, of ex_seen ex_ai ex_form_new "str ''a.pdf''"]
  obtain cb where cb: "map_of (populate_ai_from_sources ex_seen ex_ai ex_form_new (str ''a.pdf'')) ''provider'' = Some cb"
    and it: "items cb = ([str ''Beta'', str ''Acme''] @
        append_new [] (filter (\<lambda>v. v \<notin> set [str ''Beta'', str ''Acme'']) [str ''Beta'', str ''Gamma'', str ''Gamma'']) @
        (if str ''Delta'' \<noteq> [] \<and> str ''Delta'' \<notin> set [str ''Beta'', str ''Acme''] \<and>
            str ''Delta'' \<notin> set [str ''Beta'', str ''Gamma'', str ''Gamma''] then [str ''Delta''] else []))
        @ [LEAVE_UNCHANGED, CLEAR_FIELD]"
    unfolding Let_def ex_H ex_A ex_c_new by blast
  have "items cb = [str ''Beta'', str ''Acme'', str ''Gamma'', str ''Delta'', LEAVE_UNCHANGED, CLEAR_FIELD]"
    unfolding it by (simp add: str_def)
  with k cb show ?thesis by blast
qed

text \<open>
  What \<^verbatim>\<open>populate_ai_from_cache\<close>, the builder that \<^verbatim>\<open>run_ai\<close> and \<^verbatim>\<open>batch_ai_cache\<close> call,
  does: for every file name and field the list is the AI candidates as the cache holds
  them, then the current value if it is not empty, then the two markers, and the index
  is 0.
\<close>

theorem populate_ai_from_cache_items:
  assumes "key \<in> set sugg_keys"
  shows "map_of (populate_ai_from_cache ai_cache f filename) key =
     Some \<lparr> items = ai_vals_for ai_cache filename key @
                      (if current_value_for f key \<noteq> [] then [current_value_for f key] else []) @
                      [LEAVE_UNCHANGED, CLEAR_FIELD],
             current_index = 0 \<rparr>"
  using assms
  by (simp add: populate_ai_from_cache_def populate_combo_from_cache_def map_of_map_restrict Let_def)

theorem populate_ai_from_cache_items_witness:
  "''provider'' \<in> set sugg_keys \<and>
   map_of (populate_ai_from_cache ex_ai ex_form_new (str ''a.pdf'')) ''provider'' =
     Some \<lparr> items = [str ''Beta'', str ''Gamma'', str ''Gamma'', str ''Delta'',
                      LEAVE_UNCHANGED, CLEAR_FIELD],
             current_index = 0 \<rparr>"
proof -
  have k: "''provider'' \<in> set sugg_keys" by (simp add: sugg_keys_def)
  from populate_ai_from_cache_items[OF k, of ex_ai ex_form_new "str ''a.pdf''"] k
  show ?thesis by (simp add: sugg_eval ex_form_new_def)
qed

lemmas run_ai_eval = run_ai_def run_ai_shadowed_def populate_ai_from_cache_def
  populate_combo_from_cache_def populate_ai_from_sources_def populate_combo_def add_def
  build_spec_def ex_sugg_def ex_form_new_def sugg_eval

text \<open>
  C1. After "Run AI" the suggestion list is not the list of the specification. The
  \<^verbatim>\<open>run_ai\<close> that the class binds (line 962) rebuilds every combo with
  \<^verbatim>\<open>populate_ai_from_cache\<close>. For a file whose history holds the providers Beta (twice)
  and Acme, with the AI candidates Beta, Gamma, Gamma and the current value Delta, the
  provider list is the candidates as they come, then the current value, then the markers:
  no history value, and Gamma twice. The ordered set of the specification on these
  sources is Beta, Acme, Gamma, Delta and the markers, which is what the \<^verbatim>\<open>run_ai\<close> of
  line 576, through \<^verbatim>\<open>populate_ai_from_sources\<close>, builds.
\<close>

theorem run_ai_list_without_history:
  "map_of (snd (run_ai (Map.empty, initial_combos) ex_form_new (str ''a.pdf'') (Some ex_sugg))) ''provider'' =
     Some \<lparr> items = [str ''Beta'', str ''Gamma'', str ''Gamma'', str ''Delta'',
                      LEAVE_UNCHANGED, CLEAR_FIELD],
             current_index = 0 \<rparr> \<and>
   csv_top_for_file ex_seen (str ''a.pdf'') ''provider'' = [str ''Beta'', str ''Acme''] \<and>
   build_spec [str ''Beta'', str ''Acme''] [str ''Beta'', str ''Gamma'', str ''Gamma''] (str ''Delta'') =
     [str ''Beta'', str ''Acme'', str ''Gamma'', str ''Delta'', LEAVE_UNCHANGED, CLEAR_FIELD] \<and>
   map_of (snd (run_ai_shadowed ex_seen (Map.empty, initial_combos) ex_form_new (str ''a.pdf'') (Some ex_sugg)))
       ''provider'' =
     Some \<lparr> items = [str ''Beta'', str ''Acme'', str ''Gamma'', str ''Delta'',
                      LEAVE_UNCHANGED, CLEAR_FIELD],
             current_index = 0 \<rparr>"
  by (simp add: run_ai_eval)

lemma markers_differ: "LEAVE_UNCHANGED \<noteq> CLEAR_FIELD"
  by (simp add: LEAVE_UNCHANGED_def CLEAR_FIELD_def str_def)

lemma count_list_distinct:
  "distinct xs \<Longrightarrow> count_list xs x = (if x \<in> set xs then 1 else 0)"
  by (induction xs) auto

lemma count_list_append: "count_list (xs @ ys) x = count_list xs x + count_list ys x"
  by (induction xs) auto

lemma populate_member:
  assumes "(key, cb) \<in> set (populate_ai_from_sources seen ai_cache f filename)"
  shows "key \<in> set sugg_keys \<and>
         cb = populate_combo (csv_top_for_file seen filename key)
                (ai_vals_for ai_cache filename key) (current_value_for f key)"
  using assms by (auto simp: populate_ai_from_sources_def)

text \<open>
  Every list \<^verbatim>\<open>populate_ai_from_sources\<close> builds is a prefix \<open>P\<close>
  of distinct non-empty candidates followed by the two markers, leave-unchanged then
  clear-field, as its last two entries. A marker occurs once in the list, unless a candidate
  is the marker's own text: then it occurs twice.
\<close>

theorem suggestion_list_invariant:
  assumes "(key, cb) \<in> set (populate_ai_from_sources seen ai_cache f filename)"
  shows "\<exists>P. items cb = P @ [LEAVE_UNCHANGED, CLEAR_FIELD] \<and> distinct P \<and> [] \<notin> set P \<and>
     set P = {v. v \<noteq> [] \<and> (v \<in> set (csv_top_for_file seen filename key) \<or>
                             v \<in> strip ` set (ai_vals_for ai_cache filename key) \<or>
                             v = strip (current_value_for f key))} \<and>
     count_list (items cb) LEAVE_UNCHANGED = (if LEAVE_UNCHANGED \<in> set P then 2 else 1) \<and>
     count_list (items cb) CLEAR_FIELD = (if CLEAR_FIELD \<in> set P then 2 else 1)"
proof -
  let ?H = "csv_top_for_file seen filename key"
  let ?A = "map strip (ai_vals_for ai_cache filename key)"
  let ?c = "strip (current_value_for f key)"
  from populate_member[OF assms] have cb: "cb = populate_combo ?H
      (ai_vals_for ai_cache filename key) (current_value_for f key)" by simp
  have it: "items cb = build_spec ?H ?A ?c"
    unfolding cb by (simp add: populate_combo_items csv_top_stripped)
  from build_spec_candidates[of ?H ?A ?c] obtain P where
    P: "build_spec ?H ?A ?c = P @ [LEAVE_UNCHANGED, CLEAR_FIELD]" "distinct P" "[] \<notin> set P"
       "set P = {v. v \<noteq> [] \<and> (v \<in> set ?H \<or> v \<in> set ?A \<or> v = ?c)}" by blast
  have cl: "count_list (items cb) LEAVE_UNCHANGED = (if LEAVE_UNCHANGED \<in> set P then 2 else 1)"
    using markers_differ by (simp add: it P(1) count_list_append count_list_distinct[OF P(2)])
  have cc: "count_list (items cb) CLEAR_FIELD = (if CLEAR_FIELD \<in> set P then 2 else 1)"
    using markers_differ by (simp add: it P(1) count_list_append count_list_distinct[OF P(2)])
  from P(4) have sP: "set P = {v. v \<noteq> [] \<and> (v \<in> set ?H \<or>
                             v \<in> strip ` set (ai_vals_for ai_cache filename key) \<or> v = ?c)}"
    by simp
  show ?thesis
    using it P(1,2,3) sP cl cc by (intro exI[of _ P]) (simp only: simp_thms)
qed

lemma ex_populate:
  "(''provider'', \<lparr> items = [str ''Beta'', str ''Acme'', str ''Gamma'', LEAVE_UNCHANGED, CLEAR_FIELD],
                    current_index = 0 \<rparr>)
     \<in> set (populate_ai_from_sources ex_seen ex_ai ex_form (str ''a.pdf''))"
proof -
  have "populate_combo [str ''Beta'', str ''Acme''] [str ''Beta'', str ''Gamma'', str ''Gamma'']
          (str ''Acme'') =
        \<lparr> items = [str ''Beta'', str ''Acme'', str ''Gamma'', LEAVE_UNCHANGED, CLEAR_FIELD],
          current_index = 0 \<rparr>"
    by (simp add: populate_combo_def add_def sugg_eval)
  moreover have "ai_vals_for ex_ai (str ''a.pdf'') ''provider'' = [str ''Beta'', str ''Gamma'', str ''Gamma'']"
    by (simp add: sugg_eval)
  moreover have "current_value_for ex_form ''provider'' = str ''Acme''"
    by (simp add: sugg_eval)
  ultimately show ?thesis
    by (simp add: populate_ai_from_sources_def sugg_keys_def ex_H image_iff)
qed

theorem suggestion_list_invariant_witness:
  "(''provider'', \<lparr> items = [str ''Beta'', str ''Acme'', str ''Gamma'', LEAVE_UNCHANGED, CLEAR_FIELD],
                    current_index = 0 \<rparr>)
     \<in> set (populate_ai_from_sources ex_seen ex_ai ex_form (str ''a.pdf'')) \<and>
   distinct [str ''Beta'', str ''Acme'', str ''Gamma''] \<and>
   count_list [str ''Beta'', str ''Acme'', str ''Gamma'', LEAVE_UNCHANGED, CLEAR_FIELD] LEAVE_UNCHANGED = 1 \<and>
   count_list [str ''Beta'', str ''Acme'', str ''Gamma'', LEAVE_UNCHANGED, CLEAR_FIELD] CLEAR_FIELD = 1"
proof -
  from suggestion_list_invariant[OF ex_populate] obtain P where
    P: "[str ''Beta'', str ''Acme'', str ''Gamma'', LEAVE_UNCHANGED, CLEAR_FIELD] = P @ [LEAVE_UNCHANGED, CLEAR_FIELD]"
       "distinct P"
       "count_list [str ''Beta'', str ''Acme'', str ''Gamma'', LEAVE_UNCHANGED, CLEAR_FIELD] LEAVE_UNCHANGED
          = (if LEAVE_UNCHANGED \<in> set P then 2 else 1)"
       "count_list [str ''Beta'', str ''Acme'', str ''Gamma'', LEAVE_UNCHANGED, CLEAR_FIELD] CLEAR_FIELD
          = (if CLEAR_FIELD \<in> set P then 2 else 1)"
    by auto
  from P(1) have Pe: "P = [str ''Beta'', str ''Acme'', str ''Gamma'']" by simp
  have "LEAVE_UNCHANGED \<notin> set P" "CLEAR_FIELD \<notin> set P"
    unfolding Pe by (simp_all add: LEAVE_UNCHANGED_def CLEAR_FIELD_def str_def)
  with P Pe ex_populate show ?thesis by simp
qed

text \<open>
  A current value that is the text of a marker is a candidate like any other: the list
  of \<^verbatim>\<open>populate_ai_from_sources\<close> then holds that text twice.
\<close>

theorem populate_marker_text_twice:
  "map_of (populate_ai_from_sources (\<lambda>fn. []) Map.empty ex_form_marker (str ''a.pdf'')) ''provider''
     = Some \<lparr> items = [LEAVE_UNCHANGED, LEAVE_UNCHANGED, CLEAR_FIELD], current_index = 0 \<rparr> \<and>
   count_list [LEAVE_UNCHANGED, LEAVE_UNCHANGED, CLEAR_FIELD] LEAVE_UNCHANGED = 2"
  by (simp add: populate_ai_from_sources_def populate_combo_def add_def sugg_eval ex_form_marker_def)

text \<open>
  C7. After "Run AI" the candidate prefix of a suggestion list can hold a value twice.
  The \<^verbatim>\<open>run_ai\<close> that the class binds (line 962) rebuilds every combo with
  \<^verbatim>\<open>populate_ai_from_cache\<close>, which adds the candidates without comparing them: for a
  document that prints its IBAN twice the IBAN list is that IBAN, the same IBAN again,
  and the two markers. The \<^verbatim>\<open>run_ai\<close> of line 576 builds the list with the IBAN once.
\<close>

theorem run_ai_keeps_duplicates:
  "(\<exists>cb. map_of (snd (run_ai (Map.empty, initial_combos) ex_form_new (str ''a.pdf'') (Some ex_sugg))) ''iban'' = Some cb \<and>
      items cb = [str ''DE89370400440532013000'', str ''DE89370400440532013000'',
                  LEAVE_UNCHANGED, CLEAR_FIELD] \<and>
      \<not> distinct (butlast (butlast (items cb))) \<and>
      count_list (items cb) (str ''DE89370400440532013000'') = 2) \<and>
   (\<exists>cb. map_of (snd (run_ai_shadowed ex_seen (Map.empty, initial_combos) ex_form_new (str ''a.pdf'') (Some ex_sugg)))
            ''iban'' = Some cb \<and>
      items cb = [str ''DE89370400440532013000'', LEAVE_UNCHANGED, CLEAR_FIELD])"
  by (simp add: run_ai_eval)

lemma findText_found:
  "t \<in> set xs \<Longrightarrow> 0 \<le> findText xs t \<and> nat (findText xs t) < length xs \<and>
     xs ! nat (findText xs t) = t \<and> (\<forall>j < nat (findText xs t). xs ! j \<noteq> t)"
proof (induction xs)
  case Nil
  then show ?case by simp
next
  case (Cons x xs)
  show ?case
  proof (cases "x = t")
    case True
    then show ?thesis by simp
  next
    case False
    with Cons.prems have mem: "t \<in> set xs" by simp
    from Cons.IH[OF mem] have ih: "0 \<le> findText xs t" "nat (findText xs t) < length xs"
      "xs ! nat (findText xs t) = t" "\<forall>j < nat (findText xs t). xs ! j \<noteq> t" by simp_all
    have ft: "findText (x # xs) t = findText xs t + 1" using False ih(1) by (simp add: Let_def)
    have n: "nat (findText xs t + 1) = Suc (nat (findText xs t))" using ih(1) by simp
    show ?thesis
      unfolding ft n using ih False by (auto simp: nth_Cons split: nat.splits)
  qed
qed

lemma populate_combo_index:
  "current_index (populate_combo H ai cur) =
     (if hd (items (populate_combo H ai cur)) \<noteq> LEAVE_UNCHANGED \<and>
         hd (items (populate_combo H ai cur)) \<noteq> CLEAR_FIELD
      then 0 else findText (items (populate_combo H ai cur)) LEAVE_UNCHANGED)"
  by (simp add: populate_combo_def Let_def hd_conv_nth)

lemma populate_combo_ends:
  "\<exists>P. items (populate_combo H ai cur) = P @ [LEAVE_UNCHANGED, CLEAR_FIELD]"
  by (simp add: populate_combo_def Let_def)

lemma populate_combo_empty:
  "populate_combo [] [] [] = \<lparr> items = [LEAVE_UNCHANGED, CLEAR_FIELD], current_index = 0 \<rparr>"
  by (simp add: populate_combo_def Let_def)

text \<open>
  C8. With no history value, no AI candidate and no current value the combo is exactly
  \<open>[leave-unchanged, clear-field]\<close> with index 0, the leave-unchanged entry. In general
  the index is 0 when the first entry is neither marker, and otherwise it is the index of
  the first leave-unchanged entry.
\<close>

theorem default_selection:
  assumes "(key, cb) \<in> set (populate_ai_from_sources seen ai_cache f filename)"
  shows "(csv_top_for_file seen filename key = [] \<and> ai_vals_for ai_cache filename key = [] \<and>
          current_value_for f key = [] \<longrightarrow>
            cb = \<lparr> items = [LEAVE_UNCHANGED, CLEAR_FIELD], current_index = 0 \<rparr>) \<and>
     items cb \<noteq> [] \<and> 0 \<le> current_index cb \<and> nat (current_index cb) < length (items cb) \<and>
     (hd (items cb) \<noteq> LEAVE_UNCHANGED \<and> hd (items cb) \<noteq> CLEAR_FIELD \<longrightarrow> current_index cb = 0) \<and>
     (hd (items cb) = LEAVE_UNCHANGED \<or> hd (items cb) = CLEAR_FIELD \<longrightarrow>
        items cb ! nat (current_index cb) = LEAVE_UNCHANGED \<and>
        (\<forall>j < nat (current_index cb). items cb ! j \<noteq> LEAVE_UNCHANGED))"
proof -
  let ?H = "csv_top_for_file seen filename key"
  let ?ai = "ai_vals_for ai_cache filename key"
  let ?cur = "current_value_for f key"
  from populate_member[OF assms] have cb: "cb = populate_combo ?H ?ai ?cur" by simp
  from populate_combo_ends[of ?H ?ai ?cur] obtain P where
    P: "items cb = P @ [LEAVE_UNCHANGED, CLEAR_FIELD]" unfolding cb by blast
  then have mem: "LEAVE_UNCHANGED \<in> set (items cb)" and ne: "items cb \<noteq> []" by simp_all
  note ft = findText_found[OF mem]
  have idx: "current_index cb =
     (if hd (items cb) \<noteq> LEAVE_UNCHANGED \<and> hd (items cb) \<noteq> CLEAR_FIELD
      then 0 else findText (items cb) LEAVE_UNCHANGED)"
    unfolding cb by (rule populate_combo_index)
  have 1: "?H = [] \<and> ?ai = [] \<and> ?cur = [] \<longrightarrow>
            cb = \<lparr> items = [LEAVE_UNCHANGED, CLEAR_FIELD], current_index = 0 \<rparr>"
    unfolding cb by (auto simp: populate_combo_empty)
  have 2: "0 \<le> current_index cb \<and> nat (current_index cb) < length (items cb)"
    using ft ne by (simp add: idx)
  have 3: "hd (items cb) \<noteq> LEAVE_UNCHANGED \<and> hd (items cb) \<noteq> CLEAR_FIELD \<longrightarrow> current_index cb = 0"
    by (simp add: idx)
  have 4: "hd (items cb) = LEAVE_UNCHANGED \<or> hd (items cb) = CLEAR_FIELD \<longrightarrow>
        items cb ! nat (current_index cb) = LEAVE_UNCHANGED \<and>
        (\<forall>j < nat (current_index cb). items cb ! j \<noteq> LEAVE_UNCHANGED)"
    using ft by (auto simp: idx)
  from 1 ne 2 3 4 show ?thesis by blast
qed

lemma ex_populate_empty:
  "(''provider'', \<lparr> items = [LEAVE_UNCHANGED, CLEAR_FIELD], current_index = 0 \<rparr>)
     \<in> set (populate_ai_from_sources (\<lambda>fn. []) Map.empty
              \<lparr> year_edit = [], month_edit = [], day_edit = [], provider_edit = [],
                invoice_edit = [], total_edit = [], card_edit = [], taxid_edit = [], iban_edit = [] \<rparr>
              (str ''a.pdf''))"
  by (simp add: populate_ai_from_sources_def populate_combo_def add_def sugg_eval image_iff)

theorem default_selection_witness:
  "(''provider'', \<lparr> items = [LEAVE_UNCHANGED, CLEAR_FIELD], current_index = 0 \<rparr>)
     \<in> set (populate_ai_from_sources (\<lambda>fn. []) Map.empty
              \<lparr> year_edit = [], month_edit = [], day_edit = [], provider_edit = [],
                invoice_edit = [], total_edit = [], card_edit = [], taxid_edit = [], iban_edit = [] \<rparr>
              (str ''a.pdf'')) \<and>
   [LEAVE_UNCHANGED, CLEAR_FIELD] ! nat 0 = LEAVE_UNCHANGED \<and>
   (''provider'', \<lparr> items = [str ''Beta'', str ''Acme'', str ''Gamma'', LEAVE_UNCHANGED, CLEAR_FIELD],
                    current_index = 0 \<rparr>)
     \<in> set (populate_ai_from_sources ex_seen ex_ai ex_form (str ''a.pdf'')) \<and>
   hd [str ''Beta'', str ''Acme'', str ''Gamma'', LEAVE_UNCHANGED, CLEAR_FIELD] \<noteq> LEAVE_UNCHANGED \<and>
   hd [str ''Beta'', str ''Acme'', str ''Gamma'', LEAVE_UNCHANGED, CLEAR_FIELD] \<noteq> CLEAR_FIELD"
  using default_selection[OF ex_populate_empty] default_selection[OF ex_populate]
    ex_populate_empty ex_populate
  by (simp add: LEAVE_UNCHANGED_def CLEAR_FIELD_def str_def)

section \<open>The record index\<close>

lemma clear_empty: "clear ix = empty_index"
  by (simp add: clear_def empty_index_def)

lemma index_rows_append:
  "index_rows ix (rows @ [r]) =
     (case index_rows ix rows of
        (ix', None) \<Rightarrow> index_csv_row ix' r
      | (ix', Some e) \<Rightarrow> (ix', Some e))"
proof (induction rows arbitrary: ix)
  case Nil
  show ?case by (cases "index_csv_row ix r") (auto split: option.splits)
next
  case (Cons a rows)
  show ?case by (cases "index_csv_row ix a") (auto simp: Cons.IH split: option.splits)
qed

lemma index_rows_stop:
  assumes "index_rows ix pre = (ix', None)" and "index_csv_row ix' r = (ix'', Some e)"
  shows "index_rows ix (pre @ r # post) = (ix'', Some e)"
  using assms
proof (induction pre arbitrary: ix)
  case Nil
  then show ?case by simp
next
  case (Cons a pre)
  obtain ixa ea where a: "index_csv_row ix a = (ixa, ea)" by (cases "index_csv_row ix a")
  with Cons.prems(1) have ea: "ea = None" by (cases ea) auto
  with a Cons.prems(1) have "index_rows ixa pre = (ix', None)" by simp
  from Cons.IH[OF this Cons.prems(2)] a ea show ?case by simp
qed

lemma str_row_cells:
  assumes "str_row r"
  shows "row_get r ''provider'' = Some (cell_text r ''provider'')"
    "row_get r ''taxid'' = Some (cell_text r ''taxid'')"
    "row_get r ''iban'' = Some (cell_text r ''iban'')"
    "row_get r ''invoice'' = Some (cell_text r ''invoice'')"
    "row_get r ''total'' = Some (cell_text r ''total'')"
  using assms by (auto simp: str_row_def cell_text_def cell_format_def)

lemma index_csv_row_str:
  assumes "str_row r"
  shows "index_csv_row ix r =
     (ix \<lparr> csv_rows := csv_rows ix @ [r],
            seen_by_filename := (seen_by_filename ix)
               (row_get r ''filename'' := seen_by_filename ix (row_get r ''filename'') @ [r]),
            freq_provider := (if strip (cell_text r ''provider'') \<noteq> []
                              then counter_incr (freq_provider ix) (strip (cell_text r ''provider''))
                              else freq_provider ix),
            freq_taxid := (if strip (cell_text r ''taxid'') \<noteq> []
                           then counter_incr (freq_taxid ix) (strip (cell_text r ''taxid''))
                           else freq_taxid ix),
            freq_iban := (if strip (cell_text r ''iban'') \<noteq> []
                          then counter_incr (freq_iban ix) (strip (cell_text r ''iban''))
                          else freq_iban ix),
            group_index := (group_index ix)(group_key_of r := group_index ix (group_key_of r) @ [r]) \<rparr>,
      None)"
proof -
  note c = str_row_cells[OF assms]
  have key: "cell_format (row_get r ''year'') = cell_text r ''year''"
    "cell_format (row_get r ''month'') = cell_text r ''month''"
    "cell_format (row_get r ''day'') = cell_text r ''day''"
    by (simp_all add: cell_text_def)
  show ?thesis
    unfolding index_csv_row_def Let_def
    by (simp only: c key cell_strip_def option.case sum.case group_key_of_def) simp
qed

lemma index_rows_str:
  assumes "list_all str_row rows"
  shows "snd (index_rows ix rows) = None"
    and "csv_rows (fst (index_rows ix rows)) = csv_rows ix @ rows"
    and "seen_by_filename (fst (index_rows ix rows)) fn =
           seen_by_filename ix fn @ filter (\<lambda>r. row_get r ''filename'' = fn) rows"
    and "group_index (fst (index_rows ix rows)) k =
           group_index ix k @ filter (\<lambda>r. group_key_of r = k) rows"
    and "freq_provider (fst (index_rows ix rows)) =
           fold (\<lambda>v c. counter_incr c v)
             (filter (\<lambda>v. v \<noteq> []) (map (\<lambda>r. strip (cell_text r ''provider'')) rows)) (freq_provider ix)"
    and "freq_taxid (fst (index_rows ix rows)) =
           fold (\<lambda>v c. counter_incr c v)
             (filter (\<lambda>v. v \<noteq> []) (map (\<lambda>r. strip (cell_text r ''taxid'')) rows)) (freq_taxid ix)"
    and "freq_iban (fst (index_rows ix rows)) =
           fold (\<lambda>v c. counter_incr c v)
             (filter (\<lambda>v. v \<noteq> []) (map (\<lambda>r. strip (cell_text r ''iban'')) rows)) (freq_iban ix)"
  using assms
  by (induction rows arbitrary: ix; simp add: index_csv_row_str)+

lemma form_row_str: "str_row (form_row name f)"
  by (simp add: str_row_def form_row_def row_get_def)

lemma form_row_filename: "row_get (form_row name f) ''filename'' = Some name"
  by (simp add: form_row_def row_get_def)

text \<open>
  C2. A save does not update the index. Let the index be the rebuild over the rows of the
  CSV file, all ingested without an exception. The \<^verbatim>\<open>_append_csv\<close> that the class binds
  (line 858) appends the line to the file and leaves the index as it was. A rebuild over
  the extended file is the ingest of the new row into the index: it holds the new row in
  \<^verbatim>\<open>csv_rows\<close> and in the list of its file name. So after the save the index is not the
  rebuild over the extended sequence. The \<^verbatim>\<open>_append_csv\<close> of line 437, which ingests the
  row, leaves exactly that rebuild.
\<close>

theorem append_csv_index_stale:
  assumes "index_rows empty_index rows = (ix, None)"
  shows "append_csv True (rows, ix) name f = (rows @ [form_row name f], ix) \<and>
     load_csv_suggestions_and_indices ix (rows @ [form_row name f]) =
       fst (index_csv_row ix (form_row name f)) \<and>
     csv_rows (load_csv_suggestions_and_indices ix (rows @ [form_row name f])) =
       csv_rows ix @ [form_row name f] \<and>
     seen_by_filename (load_csv_suggestions_and_indices ix (rows @ [form_row name f])) (Some name) =
       seen_by_filename ix (Some name) @ [form_row name f] \<and>
     snd (append_csv True (rows, ix) name f) \<noteq>
       load_csv_suggestions_and_indices ix (fst (append_csv True (rows, ix) name f)) \<and>
     snd (append_csv_shadowed True (rows, ix) name f) =
       load_csv_suggestions_and_indices ix (fst (append_csv_shadowed True (rows, ix) name f))"
proof -
  let ?r = "form_row name f"
  have 1: "append_csv True (rows, ix) name f = (rows @ [?r], ix)"
    by (simp add: append_csv_def)
  have 2: "load_csv_suggestions_and_indices ix (rows @ [?r]) = fst (index_csv_row ix ?r)"
    using assms by (simp add: load_csv_suggestions_and_indices_def clear_empty index_rows_append)
  have 3: "csv_rows (fst (index_csv_row ix ?r)) = csv_rows ix @ [?r]"
    by (simp add: index_csv_row_str[OF form_row_str])
  have 4: "seen_by_filename (fst (index_csv_row ix ?r)) (Some name) =
       seen_by_filename ix (Some name) @ [?r]"
    by (simp add: index_csv_row_str[OF form_row_str] form_row_filename)
  have 5: "ix \<noteq> fst (index_csv_row ix ?r)"
  proof
    assume "ix = fst (index_csv_row ix ?r)"
    then have "csv_rows ix = csv_rows (fst (index_csv_row ix ?r))" by simp
    with 3 show False by simp
  qed
  have 6: "append_csv_shadowed True (rows, ix) name f = (rows @ [?r], fst (index_csv_row ix ?r))"
    by (simp add: append_csv_shadowed_def)
  show ?thesis
    unfolding 1 6 fst_conv snd_conv 2 using 3 4 5 by simp
qed

lemma ex_rows_str: "list_all str_row ex_rows"
  by (simp add: ex_rows_def form_row_str)

theorem append_csv_index_stale_witness:
  "index_rows empty_index ex_rows = (fst (index_rows empty_index ex_rows), None) \<and>
   seen_by_filename
     (snd (append_csv True (ex_rows, fst (index_rows empty_index ex_rows)) (str ''c.pdf'') ex_form_new))
     (Some (str ''c.pdf'')) = [] \<and>
   seen_by_filename
     (load_csv_suggestions_and_indices empty_index
        (fst (append_csv True (ex_rows, fst (index_rows empty_index ex_rows)) (str ''c.pdf'') ex_form_new)))
     (Some (str ''c.pdf'')) = [form_row (str ''c.pdf'') ex_form_new]"
proof -
  let ?ix = "fst (index_rows empty_index ex_rows)"
  have h: "index_rows empty_index ex_rows = (?ix, None)"
    using index_rows_str(1)[OF ex_rows_str, of empty_index] by (simp add: prod_eq_iff)
  have "seen_by_filename ?ix (Some (str ''c.pdf'')) =
      seen_by_filename empty_index (Some (str ''c.pdf'')) @
      filter (\<lambda>r. row_get r ''filename'' = Some (str ''c.pdf'')) ex_rows"
    by (rule index_rows_str(3)[OF ex_rows_str])
  then have s: "seen_by_filename ?ix (Some (str ''c.pdf'')) = []"
    by (simp add: empty_index_def ex_rows_def form_row_filename str_def)
  have l: "load_csv_suggestions_and_indices empty_index rs = load_csv_suggestions_and_indices ?ix rs" for rs
    by (simp add: load_csv_suggestions_and_indices_def clear_empty)
  note t = append_csv_index_stale[OF h, of "str ''c.pdf''" ex_form_new]
  from t have a: "append_csv True (ex_rows, ?ix) (str ''c.pdf'') ex_form_new =
      (ex_rows @ [form_row (str ''c.pdf'') ex_form_new], ?ix)" by (rule conjunct1)
  from t have b: "seen_by_filename
      (load_csv_suggestions_and_indices ?ix (ex_rows @ [form_row (str ''c.pdf'') ex_form_new]))
      (Some (str ''c.pdf'')) =
      seen_by_filename ?ix (Some (str ''c.pdf'')) @ [form_row (str ''c.pdf'') ex_form_new]"
    by (elim conjE)
  show ?thesis
    unfolding a fst_conv snd_conv l[of "ex_rows @ [form_row (str ''c.pdf'') ex_form_new]"] b s
    using h by simp
qed

text \<open>
  The two index operations on rows that have no \<^verbatim>\<open>None\<close> cell in the five columns that
  \<^verbatim>\<open>_index_csv_row\<close> trims. For every such sequence,
  \<^verbatim>\<open>_load_csv_suggestions_and_indices\<close> leaves, whatever the index held before, the state
  that folding \<^verbatim>\<open>_index_csv_row\<close> over the sequence from the empty index gives, without an
  exception, and ingesting one more such row after it gives the state of a rebuild over
  the extended sequence. The state is a function of the sequence alone: the list of a file
  name is the rows of that name, the group of a key is the rows of that key, and each
  counter counts the non-empty trimmed values of its column, all in the order of the
  sequence.
\<close>

theorem rebuild_is_fold_of_ingest:
  assumes "list_all str_row rows" and "str_row r"
  shows "load_csv_suggestions_and_indices ix rows =
       foldl (\<lambda>i x. fst (index_csv_row i x)) empty_index rows \<and>
     index_rows empty_index rows = (load_csv_suggestions_and_indices ix rows, None) \<and>
     index_csv_row (load_csv_suggestions_and_indices ix rows) r =
       (load_csv_suggestions_and_indices ix' (rows @ [r]), None) \<and>
     csv_rows (load_csv_suggestions_and_indices ix rows) = rows \<and>
     seen_by_filename (load_csv_suggestions_and_indices ix rows) fn =
       filter (\<lambda>r. row_get r ''filename'' = fn) rows \<and>
     group_index (load_csv_suggestions_and_indices ix rows) k =
       filter (\<lambda>r. group_key_of r = k) rows \<and>
     freq_provider (load_csv_suggestions_and_indices ix rows) =
       fold (\<lambda>v c. counter_incr c v)
         (filter (\<lambda>v. v \<noteq> []) (map (\<lambda>r. strip (cell_text r ''provider'')) rows)) [] \<and>
     freq_taxid (load_csv_suggestions_and_indices ix rows) =
       fold (\<lambda>v c. counter_incr c v)
         (filter (\<lambda>v. v \<noteq> []) (map (\<lambda>r. strip (cell_text r ''taxid'')) rows)) [] \<and>
     freq_iban (load_csv_suggestions_and_indices ix rows) =
       fold (\<lambda>v c. counter_incr c v)
         (filter (\<lambda>v. v \<noteq> []) (map (\<lambda>r. strip (cell_text r ''iban'')) rows)) []"
proof -
  have fold: "list_all str_row rs \<Longrightarrow>
      fst (index_rows i rs) = foldl (\<lambda>i x. fst (index_csv_row i x)) i rs" for rs i
    by (induction rs arbitrary: i) (simp_all add: index_csv_row_str)
  have none: "index_rows empty_index rows = (fst (index_rows empty_index rows), None)"
    using index_rows_str(1)[OF assms(1), of empty_index] by (simp add: prod_eq_iff)
  have app: "index_rows empty_index (rows @ [r]) = index_csv_row (fst (index_rows empty_index rows)) r"
    by (subst index_rows_append, subst none) simp
  have rn: "snd (index_csv_row i r) = None" for i
    by (simp add: index_csv_row_str[OF assms(2)])
  have 3: "index_csv_row (fst (index_rows empty_index rows)) r =
      (fst (index_rows empty_index (rows @ [r])), None)"
    unfolding app using rn by (simp add: prod_eq_iff)
  have l: "load_csv_suggestions_and_indices i rs = fst (index_rows empty_index rs)" for i rs
    by (simp add: load_csv_suggestions_and_indices_def clear_empty)
  have e: "csv_rows empty_index = []" "seen_by_filename empty_index fn = []"
    "group_index empty_index k = []" "freq_provider empty_index = []"
    "freq_taxid empty_index = []" "freq_iban empty_index = []"
    by (simp_all add: empty_index_def)
  show ?thesis
    unfolding l
    apply (intro conjI)
            apply (rule fold[OF assms(1)])
           apply (rule none)
          apply (rule 3)
         apply (simp add: index_rows_str(2)[OF assms(1)] e)
        apply (simp add: index_rows_str(3)[OF assms(1)] e)
       apply (simp add: index_rows_str(4)[OF assms(1)] e)
      apply (simp only: index_rows_str(5)[OF assms(1)] e)
     apply (simp only: index_rows_str(6)[OF assms(1)] e)
    apply (simp only: index_rows_str(7)[OF assms(1)] e)
    done
qed

theorem rebuild_is_fold_of_ingest_witness:
  "list_all str_row ex_rows \<and> str_row (form_row (str ''c.pdf'') ex_form_new) \<and>
   csv_rows (load_csv_suggestions_and_indices empty_index ex_rows) = ex_rows \<and>
   seen_by_filename (load_csv_suggestions_and_indices empty_index ex_rows) (Some (str ''b.pdf'')) =
     [form_row (str ''b.pdf'') ex_form_new] \<and>
   freq_provider (load_csv_suggestions_and_indices empty_index ex_rows) =
     [(str ''Acme'', 1), (str ''Delta'', 1)]"
proof -
  note t = rebuild_is_fold_of_ingest[OF ex_rows_str form_row_str[of "str ''c.pdf''" ex_form_new],
      where ix = empty_index and fn = "Some (str ''b.pdf'')" and ix' = empty_index
        and k = "([], [], [], [])"]
  from t have c: "csv_rows (load_csv_suggestions_and_indices empty_index ex_rows) = ex_rows"
    by (elim conjE)
  from t have s: "seen_by_filename (load_csv_suggestions_and_indices empty_index ex_rows)
       (Some (str ''b.pdf'')) = filter (\<lambda>r. row_get r ''filename'' = Some (str ''b.pdf'')) ex_rows"
    by (elim conjE)
  from t have f: "freq_provider (load_csv_suggestions_and_indices empty_index ex_rows) =
       fold (\<lambda>v c. counter_incr c v)
         (filter (\<lambda>v. v \<noteq> []) (map (\<lambda>r. strip (cell_text r ''provider'')) ex_rows)) []"
    by (elim conjE)
  have s': "filter (\<lambda>r. row_get r ''filename'' = Some (str ''b.pdf'')) ex_rows =
       [form_row (str ''b.pdf'') ex_form_new]"
    by (simp add: ex_rows_def form_row_filename str_def)
  have p: "map (\<lambda>r. strip (cell_text r ''provider'')) ex_rows = [str ''Acme'', str ''Delta'']"
    by (simp add: ex_rows_def cell_text_def cell_format_def row_get_def form_row_def
          ex_form_def ex_form_new_def str_eval)
  have f': "fold (\<lambda>v c. counter_incr c v)
         (filter (\<lambda>v. v \<noteq> []) (map (\<lambda>r. strip (cell_text r ''provider'')) ex_rows)) [] =
       [(str ''Acme'', 1), (str ''Delta'', 1)]"
    unfolding p by (simp add: str_def)
  show ?thesis
    unfolding c s f s' f' using ex_rows_str form_row_str by simp
qed

text \<open>
  A line shorter than the header stops the load. \<^verbatim>\<open>_index_csv_row\<close> raises
  \<^verbatim>\<open>AttributeError\<close> exactly on the rows with a \<^verbatim>\<open>None\<close> cell in one of the five columns it
  trims. When the rows before such a row have none, the load ends at it: the row is in
  \<^verbatim>\<open>csv_rows\<close> and in the list of its file name, it is in no group, and the rows after it
  are not in the index.
\<close>

lemma index_csv_row_raises:
  assumes "\<not> str_row r"
  shows "snd (index_csv_row ix r) = Some AttributeError"
    and "csv_rows (fst (index_csv_row ix r)) = csv_rows ix @ [r]"
    and "seen_by_filename (fst (index_csv_row ix r)) fn =
           seen_by_filename ix fn @ (if row_get r ''filename'' = fn then [r] else [])"
    and "group_index (fst (index_csv_row ix r)) = group_index ix"
  using assms
  by (auto simp: str_row_def index_csv_row_def Let_def cell_strip_def
           split: option.splits sum.splits)

theorem load_stops_at_raising_row:
  assumes "list_all str_row pre" and "\<not> str_row r"
  shows "index_rows empty_index (pre @ r # post) =
       (load_csv_suggestions_and_indices ix (pre @ r # post), Some AttributeError) \<and>
     load_csv_suggestions_and_indices ix (pre @ r # post) =
       fst (index_csv_row (load_csv_suggestions_and_indices ix pre) r) \<and>
     csv_rows (load_csv_suggestions_and_indices ix (pre @ r # post)) = pre @ [r] \<and>
     seen_by_filename (load_csv_suggestions_and_indices ix (pre @ r # post)) fn =
       filter (\<lambda>x. row_get x ''filename'' = fn) (pre @ [r]) \<and>
     group_index (load_csv_suggestions_and_indices ix (pre @ r # post)) k =
       filter (\<lambda>x. group_key_of x = k) pre"
proof -
  define ix1 where "ix1 = fst (index_rows empty_index pre)"
  define ix2 where "ix2 = fst (index_csv_row ix1 r)"
  have h: "index_rows empty_index pre = (ix1, None)"
    using index_rows_str(1)[OF assms(1), of empty_index] by (simp add: ix1_def prod_eq_iff)
  have r: "index_csv_row ix1 r = (ix2, Some AttributeError)"
    using index_csv_row_raises(1)[OF assms(2), of ix1] by (simp add: ix2_def prod_eq_iff)
  have s: "index_rows empty_index (pre @ r # post) = (ix2, Some AttributeError)"
    by (rule index_rows_stop[OF h r])
  have l: "load_csv_suggestions_and_indices i rs = fst (index_rows empty_index rs)" for i rs
    by (simp add: load_csv_suggestions_and_indices_def clear_empty)
  have e: "csv_rows empty_index = []" "seen_by_filename empty_index fn = []"
    "group_index empty_index k = []"
    by (simp_all add: empty_index_def)
  have c: "csv_rows ix2 = pre @ [r]"
    unfolding ix2_def index_csv_row_raises(2)[OF assms(2)] ix1_def
      index_rows_str(2)[OF assms(1)] e by simp
  have f: "seen_by_filename ix2 fn = filter (\<lambda>x. row_get x ''filename'' = fn) (pre @ [r])"
    unfolding ix2_def index_csv_row_raises(3)[OF assms(2)] ix1_def
      index_rows_str(3)[OF assms(1)] e by simp
  have g: "group_index ix2 k = filter (\<lambda>x. group_key_of x = k) pre"
    unfolding ix2_def index_csv_row_raises(4)[OF assms(2)] ix1_def
      index_rows_str(4)[OF assms(1)] e by simp
  show ?thesis
    unfolding l s fst_conv using c f g by (simp add: ix2_def ix1_def)
qed

lemma short_row_not_str: "\<not> str_row short_row"
  by (simp add: str_row_def short_row_def row_get_def)

theorem load_stops_at_raising_row_witness:
  "list_all str_row [form_row (str ''a.pdf'') ex_form] \<and> \<not> str_row short_row \<and>
   csv_rows (load_csv_suggestions_and_indices empty_index ex_rows_short) =
     [form_row (str ''a.pdf'') ex_form, short_row] \<and>
   seen_by_filename (load_csv_suggestions_and_indices empty_index ex_rows_short) (Some (str ''s.pdf'')) =
     [short_row] \<and>
   seen_by_filename (load_csv_suggestions_and_indices empty_index ex_rows_short) (Some (str ''b.pdf'')) = []"
proof -
  let ?a = "form_row (str ''a.pdf'') ex_form"
  let ?b = "form_row (str ''b.pdf'') ex_form_new"
  have p: "list_all str_row [?a]" by (simp add: form_row_str)
  have x: "ex_rows_short = [?a] @ short_row # [?b]" by (simp add: ex_rows_short_def)
  have fs: "row_get short_row ''filename'' = Some (str ''s.pdf'')"
    by (simp add: short_row_def row_get_def)
  note t = load_stops_at_raising_row[OF p short_row_not_str, of "[?b]" empty_index]
  from t[of "Some (str ''s.pdf'')" "([], [], [], [])"]
  have c: "csv_rows (load_csv_suggestions_and_indices empty_index ([?a] @ short_row # [?b])) =
      [?a] @ [short_row]" by (elim conjE)
  from t[of "Some (str ''s.pdf'')" "([], [], [], [])"]
  have s1: "seen_by_filename (load_csv_suggestions_and_indices empty_index ([?a] @ short_row # [?b]))
      (Some (str ''s.pdf'')) =
      filter (\<lambda>x. row_get x ''filename'' = Some (str ''s.pdf'')) ([?a] @ [short_row])"
    by (elim conjE)
  from t[of "Some (str ''b.pdf'')" "([], [], [], [])"]
  have s2: "seen_by_filename (load_csv_suggestions_and_indices empty_index ([?a] @ short_row # [?b]))
      (Some (str ''b.pdf'')) =
      filter (\<lambda>x. row_get x ''filename'' = Some (str ''b.pdf'')) ([?a] @ [short_row])"
    by (elim conjE)
  show ?thesis
    unfolding x c s1 s2 using p short_row_not_str by (simp add: form_row_filename fs str_def)
qed

section \<open>Selecting text on the page\<close>

lemmas click_eval = on_pdf_click_def on_pdf_click_shadowed_def nearest_step_def logged_def py_div_def
  by_line_of_def by_line_get_def pick_word_def glue_amount_or_name_def at_w_def gap_def
  currency_def is_numlike_def is_namepiece_def rx_numlike_def rx_namepiece_def rx_eval str_eval
  power2_eq_square

lemma logged_simps [simp]: "logged (Inr out) = out" "logged (Inl e) = Logged e"
  by (simp_all add: logged_def)

lemma is_word_ends: "is_word t \<Longrightarrow> t \<noteq> [] \<and> \<not> is_space (hd t) \<and> \<not> is_space (last t)"
  by (cases t) (auto simp: is_word_def list_all_iff)

lemma join_words:
  "ts \<noteq> [] \<Longrightarrow> list_all is_word ts \<Longrightarrow>
   join [32] ts \<noteq> [] \<and> hd (join [32] ts) = hd (hd ts) \<and> last (join [32] ts) = last (last ts)"
proof (induction "[32::nat]" ts rule: join.induct)
  case 1
  then show ?case by simp
next
  case (2 p)
  then show ?case using is_word_ends[of p] by simp
next
  case (3 p q ps)
  then show ?case using is_word_ends[of p] by (cases p) auto
qed

lemma strip_join_words:
  assumes "ts \<noteq> []" "list_all is_word ts"
  shows "strip (join [32] ts) = join [32] ts" "join [32] ts \<noteq> []"
proof -
  from join_words[OF assms] have j: "join [32] ts \<noteq> []" "hd (join [32] ts) = hd (hd ts)"
    "last (join [32] ts) = last (last ts)" by simp_all
  from assms have "is_word (hd ts)" "is_word (last ts)"
    by (auto simp: list_all_iff)
  with is_word_ends[of "hd ts"] is_word_ends[of "last ts"] j
  show "strip (join [32] ts) = join [32] ts"
    unfolding strip_def by (intro strip_by_fixed) simp
  show "join [32] ts \<noteq> []" by (rule j(1))
qed

text \<open>
  C6, as the code has it. With a zoom other than 0, \<^verbatim>\<open>on_pdf_box\<close> takes exactly the words
  whose boxes intersect the converted rectangle, sorts them ascending by (block, line, x0),
  joins their texts with single spaces and trims the joined text. It opens the menu on the
  trimmed text and does nothing when the trimmed text is empty, so also when no word
  intersects. When the words taken are free of whitespace, the trimmed text is the joined
  text.
\<close>

theorem on_pdf_box_reading_order:
  assumes "zoom \<noteq> 0"
  shows "let sel = (of_int (r_left rect) / zoom, of_int (r_top rect) / zoom,
                    of_int (r_right rect) / zoom, of_int (r_bottom rect) / zoom);
             picked = filter (\<lambda>w. intersects (wx0 w, wy0 w, wx1 w, wy1 w) sel) words;
             ordered = sort_key (\<lambda>w. (wblock w, wline w, wx0 w)) picked;
             joined = join [32] (map wtext ordered)
         in on_pdf_box intersects zoom rect words =
              (if strip joined = [] then Nothing else Popup (strip joined)) \<and>
            sorted (map (\<lambda>w. (wblock w, wline w, wx0 w)) ordered) \<and>
            set ordered = set picked \<and> length ordered = length picked \<and>
            (picked = [] \<longrightarrow> on_pdf_box intersects zoom rect words = Nothing) \<and>
            (picked \<noteq> [] \<and> list_all (\<lambda>w. is_word (wtext w)) picked \<longrightarrow>
               on_pdf_box intersects zoom rect words = Popup joined)"
proof -
  define sel where "sel = (of_int (r_left rect) / zoom, of_int (r_top rect) / zoom,
                    of_int (r_right rect) / zoom, of_int (r_bottom rect) / zoom)"
  define picked where "picked = filter (\<lambda>w. intersects (wx0 w, wy0 w, wx1 w, wy1 w) sel) words"
  define ordered where "ordered = sort_key (\<lambda>w. (wblock w, wline w, wx0 w)) picked"
  define joined where "joined = join [32] (map wtext ordered)"
  have run: "on_pdf_box intersects zoom rect words =
      (if words = [] then Nothing
       else if strip joined = [] then Nothing else Popup (strip joined))"
    using assms
    by (simp add: on_pdf_box_def py_div_def logged_def Let_def sel_def picked_def ordered_def
          joined_def)
  have so: "set ordered = set picked" "length ordered = length picked"
    by (simp_all add: ordered_def)
  have none: "words = [] \<Longrightarrow> strip joined = []"
    by (simp add: joined_def ordered_def picked_def)
  have res: "on_pdf_box intersects zoom rect words =
       (if strip joined = [] then Nothing else Popup (strip joined))"
    using none by (simp add: run)
  have empty: "picked = [] \<longrightarrow> on_pdf_box intersects zoom rect words = Nothing"
    by (simp add: res joined_def ordered_def)
  have words: "picked \<noteq> [] \<and> list_all (\<lambda>w. is_word (wtext w)) picked \<longrightarrow>
               on_pdf_box intersects zoom rect words = Popup joined"
  proof
    assume a: "picked \<noteq> [] \<and> list_all (\<lambda>w. is_word (wtext w)) picked"
    with so have one: "map wtext ordered \<noteq> []" by auto
    from a so have all: "list_all is_word (map wtext ordered)"
      by (auto simp: list_all_iff)
    from strip_join_words[OF one all] show "on_pdf_box intersects zoom rect words = Popup joined"
      by (simp add: res joined_def)
  qed
  have srt: "sorted (map (\<lambda>w. (wblock w, wline w, wx0 w)) ordered)"
    unfolding ordered_def by (rule sorted_sort_key)
  show ?thesis
    unfolding Let_def sel_def[symmetric] picked_def[symmetric] ordered_def[symmetric]
      joined_def[symmetric]
    using res srt so empty words by (intro conjI)
qed

theorem on_pdf_box_reading_order_witness:
  "(3/2 :: rat) \<noteq> 0 \<and>
   filter (\<lambda>w. overlap (wx0 w, wy0 w, wx1 w, wy1 w) (0, 0, 200, 60)) two_lines \<noteq> [] \<and>
   list_all (\<lambda>w. is_word (wtext w))
     (filter (\<lambda>w. overlap (wx0 w, wy0 w, wx1 w, wy1 w) (0, 0, 200, 60)) two_lines) \<and>
   on_pdf_box overlap (3/2) \<lparr> r_left = 0, r_top = 0, r_right = 300, r_bottom = 90 \<rparr> two_lines =
     Popup (str ''Total due EUR 120,50'') \<and>
   filter (\<lambda>w. overlap (wx0 w, wy0 w, wx1 w, wy1 w) (0, 200, 200, 800 / 3)) two_lines = [] \<and>
   on_pdf_box overlap (3/2) \<lparr> r_left = 0, r_top = 300, r_right = 300, r_bottom = 400 \<rparr> two_lines =
     Nothing"
proof -
  have z: "(3/2 :: rat) \<noteq> 0" by simp
  show ?thesis
    using on_pdf_box_reading_order[OF z, of "\<lparr> r_left = 0, r_top = 0, r_right = 300, r_bottom = 90 \<rparr>" overlap two_lines]
      on_pdf_box_reading_order[OF z, of "\<lparr> r_left = 0, r_top = 300, r_right = 300, r_bottom = 400 \<rparr>" overlap two_lines]
    by (simp add: Let_def two_lines_def overlap_def str_def is_word_def is_space_def
          strip_def strip_by_def)
qed

text \<open>
  The claim as stated, the intersecting words joined with single spaces and nothing only
  when no word intersects, fails on a word that is whitespace: a word whose text is the
  ideographic space intersects the rectangle and nothing is returned, and of a word that
  starts with an em space only the rest is returned.
\<close>

theorem on_pdf_box_blank_counterexample:
  "overlap (wx0 (hd blank_word), wy0 (hd blank_word), wx1 (hd blank_word), wy1 (hd blank_word))
     (0 / (3/2), 0 / (3/2), 60 / (3/2), 60 / (3/2)) \<and>
   join [32] (map wtext blank_word) = [12288] \<and>
   on_pdf_box overlap (3/2) \<lparr> r_left = 0, r_top = 0, r_right = 60, r_bottom = 60 \<rparr> blank_word =
     Nothing \<and>
   overlap (wx0 (hd spaced_word), wy0 (hd spaced_word), wx1 (hd spaced_word), wy1 (hd spaced_word))
     (0 / (3/2), 0 / (3/2), 60 / (3/2), 60 / (3/2)) \<and>
   join [32] (map wtext spaced_word) = [8195, 97] \<and>
   on_pdf_box overlap (3/2) \<lparr> r_left = 0, r_top = 0, r_right = 60, r_bottom = 60 \<rparr> spaced_word =
     Popup (str ''a'')"
  by (simp add: on_pdf_box_def py_div_def Let_def blank_word_def spaced_word_def overlap_def
        str_eval is_space_def)

subsection \<open>The click\<close>

text \<open>
  C3. The handler the class binds does not select by line and then snap right. On a line
  of two words, a click at x = 12 (document units) right of the first word, whose x0 is 0,
  and left of the second, whose x0 is 20, returns the first word, whose centre is nearer;
  the first word with x0 at or right of the click is the second, which is what the
  function of line 675 returns.
\<close>

theorem on_pdf_click_nearest_centre:
  "on_pdf_click (3/2) hash_line 18 22 = Popup (str ''#1'') \<and>
   find (\<lambda>w. wx0 w \<ge> 18 / (3/2)) (sort_key wx0 hash_line) = Some (hash_line ! 1) \<and>
   on_pdf_click_shadowed (3/2) hash_line 18 22 = Popup (str ''#2'')"
  by (simp add: click_eval hash_line_def)

text \<open>
  C4. On the line of \<^verbatim>\<open>"\<euro>"\<close> and \<^verbatim>\<open>"120,50"\<close>, 4 units apart, the handler the class
  binds returns the one word nearest to the click, \<^verbatim>\<open>"\<euro>"\<close> or \<^verbatim>\<open>"120,50"\<close>, where
  the function of line 675 returns \<^verbatim>\<open>"\<euro> 120,50"\<close>.
\<close>

theorem on_pdf_click_no_glue:
  "on_pdf_click (3/2) euro_line 21 22 = Popup [8364] \<and>
   on_pdf_click (3/2) euro_line 60 22 = Popup (str ''120,50'') \<and>
   on_pdf_click_shadowed (3/2) euro_line 21 22 = Popup ([8364, 32] @ str ''120,50'') \<and>
   on_pdf_click_shadowed (3/2) euro_line 60 22 = Popup ([8364, 32] @ str ''120,50'')"
  by (simp add: click_eval euro_line_def)

text \<open>
  The function of line 675 glues the pair wherever the click is: for every line of the two
  words \<^verbatim>\<open>"\<euro>"\<close> and \<^verbatim>\<open>"120,50"\<close> with a gap below 20, every zoom other than 0 and
  every click whose distance to the middle of the line is below the initial
  \<^verbatim>\<open>best_line_dist\<close>, it returns \<^verbatim>\<open>"\<euro> 120,50"\<close>.
\<close>

lemma texts_eval:
  "is_numlike (str ''120,50'')" "is_numlike [8364]"
  "\<not> is_namepiece (str ''120,50'')" "\<not> is_namepiece [8364]"
  "lower [8364] \<in> set currency" "lower (str ''120,50'') \<notin> set currency"
  by (simp_all add: is_numlike_def is_namepiece_def rx_numlike_def rx_namepiece_def currency_def
        rx_eval str_eval)

lemma strip_glued: "strip ([8364, 32] @ str ''120,50'') = [8364, 32] @ str ''120,50''"
  by (simp add: str_eval)

lemma glue_euro_amount:
  assumes e: "wtext e = [8364]" and a: "wtext a = str ''120,50''"
      and g: "wx0 a - wx1 e < 20"
  shows "glue_amount_or_name [e, a] 0 = [8364, 32] @ str ''120,50''"
        "glue_amount_or_name [e, a] 1 = [8364, 32] @ str ''120,50''"
proof -
  have g25: "wx0 a - wx1 e < 25" using g by simp
  show "glue_amount_or_name [e, a] 0 = [8364, 32] @ str ''120,50''"
    using g25 strip_glued
    by (simp add: glue_amount_or_name_def Let_def at_w_def gap_def e a texts_eval)
  show "glue_amount_or_name [e, a] 1 = [8364, 32] @ str ''120,50''"
    using g g25 strip_glued
    by (simp add: glue_amount_or_name_def Let_def at_w_def gap_def e a texts_eval)
qed

lemma pick_word_pair: "pick_word px [e, a] = Inr e \<or> pick_word px [e, a] = Inr a"
  by (simp add: pick_word_def)

theorem shadowed_click_glues_euro:
  assumes e: "wtext e = [8364]" and a: "wtext a = str ''120,50''"
      and same: "wblock e = wblock a" "wline e = wline a"
      and order: "wx0 e \<le> wx0 a"
      and g: "wx0 a - wx1 e < 20"
      and zoom: "zoom \<noteq> 0"
      and near: "\<bar>(min (wy0 a) (wy0 e) + max (wy1 a) (wy1 e)) / 2 - of_int y / zoom\<bar> < 10 ^ 18"
  shows "on_pdf_click_shadowed zoom [e, a] x y = Popup ([8364, 32] @ str ''120,50'')"
proof -
  have ne: "e \<noteq> a" using e a by (auto simp: str_def)
  have bl: "by_line_of [e, a] = [((wblock e, wline e), [e, a])]"
    using same by (simp add: by_line_of_def)
  have ix: "py_index [e, a] e = Inr 0" "py_index [e, a] a = Inr 1"
    using ne by simp_all
  have run: "on_pdf_click_shadowed zoom [e, a] x y =
      logged (bind_err (pick_word (of_int x / zoom) [e, a]) (\<lambda>picked.
              bind_err (py_index [e, a] picked) (\<lambda>idx.
                Inr (Popup (glue_amount_or_name [e, a] idx)))))"
    using zoom near order
    by (simp add: on_pdf_click_shadowed_def py_div_def bl by_line_get_def Let_def)
  from pick_word_pair[of "of_int x / zoom" e a] show ?thesis
  proof
    assume "pick_word (of_int x / zoom) [e, a] = Inr e"
    then show ?thesis by (simp add: run ix glue_euro_amount[OF e a g] del: py_index.simps)
  next
    assume "pick_word (of_int x / zoom) [e, a] = Inr a"
    then show ?thesis by (simp add: run ix glue_euro_amount[OF e a g] del: py_index.simps)
  qed
qed


theorem shadowed_click_glues_euro_witness:
  "wtext (euro_line ! 0) = [8364] \<and> wtext (euro_line ! 1) = str ''120,50'' \<and>
   wx0 (euro_line ! 1) - wx1 (euro_line ! 0) < 20 \<and>
   on_pdf_click_shadowed (3/2) [euro_line ! 0, euro_line ! 1] 12 22 =
     Popup ([8364, 32] @ str ''120,50'')"
  using shadowed_click_glues_euro [of "euro_line ! 0" "euro_line ! 1" "3/2" 22 12]
  by (simp add: euro_line_def)

text \<open>
  The handler the class binds returns the trimmed text of one word of the page, never a
  text made of several.
\<close>

lemma nearest_fold:
  "fst st = None \<or> (\<exists>w \<in> set ws0. fst st = Some (wtext w)) \<Longrightarrow> set ws \<subseteq> set ws0 \<Longrightarrow>
   fst (fold (nearest_step px py) ws st) = None \<or>
   (\<exists>w \<in> set ws0. fst (fold (nearest_step px py) ws st) = Some (wtext w))"
proof (induction ws arbitrary: st)
  case Nil
  then show ?case by simp
next
  case (Cons w ws)
  have "fst (nearest_step px py w st) = None \<or> (\<exists>w' \<in> set ws0. fst (nearest_step px py w st) = Some (wtext w'))"
    using Cons.prems by (auto simp: nearest_step_def Let_def)
  from Cons.IH[OF this] Cons.prems(2) show ?case by simp
qed

theorem on_pdf_click_single_word:
  "on_pdf_click zoom words x y = Popup t \<Longrightarrow> \<exists>w \<in> set words. t = strip (wtext w)"
proof -
  assume p: "on_pdf_click zoom words x y = Popup t"
  have "fst (fold (nearest_step (of_int x / zoom) (of_int y / zoom)) words (None, 10 ^ 18)) = None \<or>
        (\<exists>w \<in> set words. fst (fold (nearest_step (of_int x / zoom) (of_int y / zoom)) words (None, 10 ^ 18)) = Some (wtext w))"
    by (rule nearest_fold) simp_all
  with p show ?thesis
    by (auto simp: on_pdf_click_def py_div_def logged_def Let_def split: if_splits option.splits)
qed

theorem on_pdf_click_single_word_witness:
  "on_pdf_click (3/2) euro_line 21 22 = Popup [8364] \<and>
   (\<exists>w \<in> set euro_line. [8364] = strip (wtext w))"
proof -
  have p: "on_pdf_click (3/2) euro_line 21 22 = Popup [8364]"
    by (simp add: click_eval euro_line_def)
  from on_pdf_click_single_word[OF p] p show ?thesis by simp
qed

subsection \<open>The click of lines 675-759 in general\<close>

lemma by_line_add_keys:
  "map fst (by_line_add bl w) =
     (if line_key w \<in> set (map fst bl) then map fst bl else map fst bl @ [line_key w])"
proof (induction bl)
  case Nil
  then show ?case by (simp add: line_key_def)
next
  case (Cons e bl)
  obtain k ws where e: "e = (k, ws)" by (cases e)
  show ?case
  proof (cases "k = line_key w")
    case True
    then show ?thesis by (simp add: e line_key_def)
  next
    case False
    then show ?thesis using Cons.IH by (simp add: e line_key_def)
  qed
qed

lemma by_line_add_lookup:
  "map_of (by_line_add bl w) k =
     (if k = line_key w then Some ((case map_of bl k of None \<Rightarrow> [] | Some ws \<Rightarrow> ws) @ [w])
      else map_of bl k)"
  by (induction bl) (auto simp: line_key_def)

lemma by_line_fold:
  "distinct (map fst bl) \<Longrightarrow>
   distinct (map fst (fold (\<lambda>w bl. by_line_add bl w) ws bl)) \<and>
   (\<forall>k. map_of (fold (\<lambda>w bl. by_line_add bl w) ws bl) k =
      (if k \<in> set (map fst bl) \<union> line_key ` set ws
       then Some ((case map_of bl k of None \<Rightarrow> [] | Some g \<Rightarrow> g) @ filter (\<lambda>w. line_key w = k) ws)
       else None))"
proof (induction ws arbitrary: bl)
  case Nil
  then show ?case by (auto simp: map_of_eq_None_iff[symmetric] split: option.splits)
next
  case (Cons w ws)
  have d: "distinct (map fst (by_line_add bl w))"
    using Cons.prems by (simp add: by_line_add_keys)
  from Cons.IH[OF d] show ?case
    by (auto simp: by_line_add_keys by_line_add_lookup split: option.splits)
qed

lemma by_line_of_distinct: "distinct (map fst (by_line_of words))"
  unfolding by_line_of_def using by_line_fold[of "[]" words] by simp

lemma by_line_of_lookup:
  "map_of (by_line_of words) k =
     (if k \<in> line_key ` set words then Some (filter (\<lambda>w. line_key w = k) words) else None)"
proof -
  have "\<forall>k. map_of (by_line_of words) k =
      (if k \<in> set (map fst ([]::((int \<times> int) \<times> word list) list)) \<union> line_key ` set words
       then Some ((case map_of ([]::((int \<times> int) \<times> word list) list) k of None \<Rightarrow> [] | Some g \<Rightarrow> g)
                  @ filter (\<lambda>w. line_key w = k) words)
       else None)"
  proof -
    have "distinct (map fst ([]::((int \<times> int) \<times> word list) list))" by simp
    from by_line_fold[OF this, of words] show ?thesis unfolding by_line_of_def by (rule conjunct2)
  qed
  then have "map_of (by_line_of words) k =
      (if k \<in> set (map fst ([]::((int \<times> int) \<times> word list) list)) \<union> line_key ` set words
       then Some ((case map_of ([]::((int \<times> int) \<times> word list) list) k of None \<Rightarrow> [] | Some g \<Rightarrow> g)
                  @ filter (\<lambda>w. line_key w = k) words)
       else None)" by (rule spec)
  then show ?thesis by simp
qed

lemma by_line_of_keys: "set (map fst (by_line_of words)) = line_key ` set words"
proof -
  have "k \<in> set (map fst (by_line_of words)) \<longleftrightarrow> k \<in> line_key ` set words" for k
    using by_line_of_lookup[of words k]
    by (metis map_of_eq_None_iff option.distinct(1) set_map)
  then show ?thesis by blast
qed

lemma by_line_of_group:
  assumes "(k, g) \<in> set (by_line_of words)"
  shows "g = filter (\<lambda>w. line_key w = k) words" "g \<noteq> []"
proof -
  from assms by_line_of_distinct[of words] have "map_of (by_line_of words) k = Some g" by simp
  with by_line_of_lookup[of words k] have k: "k \<in> line_key ` set words"
    and g: "g = filter (\<lambda>w. line_key w = k) words"
    by (auto split: if_splits)
  from k have "filter (\<lambda>w. line_key w = k) words \<noteq> []"
    by (auto simp: filter_empty_conv)
  with g show "g = filter (\<lambda>w. line_key w = k) words" "g \<noteq> []" by simp_all
qed


lemma by_line_fold_keys:
  "map fst (fold (\<lambda>w bl. by_line_add bl w) ws bl) = firsts (map fst bl) (map line_key ws)"
  by (induction ws arbitrary: bl) (simp_all add: by_line_add_keys)

lemma by_line_of_key_order: "map fst (by_line_of words) = firsts [] (map line_key words)"
  unfolding by_line_of_def using by_line_fold_keys[of words "[]"] by simp

lemma py_min_Min: "xs \<noteq> [] \<Longrightarrow> py_min xs = Inr (Min (set xs))"
proof (cases xs)
  case Nil
  assume "xs \<noteq> []"
  with Nil show ?thesis by simp
next
  case (Cons a list)
  show ?thesis unfolding Cons using Min.set_eq_fold[of a list] by simp
qed

lemma py_max_Max: "xs \<noteq> [] \<Longrightarrow> py_max xs = Inr (Max (set xs))"
proof (cases xs)
  case Nil
  assume "xs \<noteq> []"
  with Nil show ?thesis by simp
next
  case (Cons a list)
  show ?thesis unfolding Cons using Max.set_eq_fold[of a list] by simp
qed

lemma nearest_line_step:
  "g \<noteq> [] \<Longrightarrow> nearest_line py ((k, g) # rest) st =
     nearest_line py rest (if line_dist py g < snd st then (Some k, line_dist py g) else st)"
  by (simp add: py_min_Min py_max_Max line_dist_def Let_def)

lemma nearest_line_scan:
  assumes "list_all (\<lambda>e. snd e \<noteq> []) bl"
  shows "\<exists>st'. nearest_line py bl st = Inr st' \<and>
    ((st' = st \<and> (\<forall>e \<in> set bl. snd st \<le> line_dist py (snd e))) \<or>
     (\<exists>i < length bl. st' = (Some (fst (bl ! i)), line_dist py (snd (bl ! i))) \<and>
        line_dist py (snd (bl ! i)) < snd st \<and>
        (\<forall>j < i. line_dist py (snd (bl ! i)) < line_dist py (snd (bl ! j))) \<and>
        (\<forall>e \<in> set bl. line_dist py (snd (bl ! i)) \<le> line_dist py (snd e))))"
  using assms
proof (induction bl arbitrary: st)
  case Nil
  then show ?case by simp
next
  case (Cons e rest)
  obtain k g where e: "e = (k, g)" by (cases e)
  from Cons.prems have g: "g \<noteq> []" and rest: "list_all (\<lambda>e. snd e \<noteq> []) rest"
    by (simp_all add: e)
  define d0 where "d0 = line_dist py g"
  define st1 where "st1 = (if d0 < snd st then (Some k, d0) else st)"
  have step: "nearest_line py (e # rest) st = nearest_line py rest st1"
    unfolding e st1_def d0_def by (rule nearest_line_step[OF g])
  have st1_le: "snd st1 \<le> snd st" "snd st1 \<le> d0" by (auto simp: st1_def)
  from Cons.IH[OF rest, of st1] obtain st' where run: "nearest_line py rest st1 = Inr st'"
    and alt: "(st' = st1 \<and> (\<forall>e \<in> set rest. snd st1 \<le> line_dist py (snd e))) \<or>
     (\<exists>i < length rest. st' = (Some (fst (rest ! i)), line_dist py (snd (rest ! i))) \<and>
        line_dist py (snd (rest ! i)) < snd st1 \<and>
        (\<forall>j < i. line_dist py (snd (rest ! i)) < line_dist py (snd (rest ! j))) \<and>
        (\<forall>e \<in> set rest. line_dist py (snd (rest ! i)) \<le> line_dist py (snd e)))"
    by blast
  from alt show ?case
  proof
    assume a: "st' = st1 \<and> (\<forall>e \<in> set rest. snd st1 \<le> line_dist py (snd e))"
    show ?thesis
    proof (cases "d0 < snd st")
      case True
      then have s1: "st1 = (Some k, d0)" by (simp add: st1_def)
      have "0 < length (e # rest) \<and> st' = (Some (fst ((e # rest) ! 0)), line_dist py (snd ((e # rest) ! 0))) \<and>
        line_dist py (snd ((e # rest) ! 0)) < snd st \<and>
        (\<forall>j < 0. line_dist py (snd ((e # rest) ! 0)) < line_dist py (snd ((e # rest) ! j))) \<and>
        (\<forall>e' \<in> set (e # rest). line_dist py (snd ((e # rest) ! 0)) \<le> line_dist py (snd e'))"
        using a True s1 by (auto simp: e d0_def)
      then have "\<exists>i < length (e # rest). st' = (Some (fst ((e # rest) ! i)), line_dist py (snd ((e # rest) ! i))) \<and>
        line_dist py (snd ((e # rest) ! i)) < snd st \<and>
        (\<forall>j < i. line_dist py (snd ((e # rest) ! i)) < line_dist py (snd ((e # rest) ! j))) \<and>
        (\<forall>e' \<in> set (e # rest). line_dist py (snd ((e # rest) ! i)) \<le> line_dist py (snd e'))"
        by (rule exI[of _ 0])
      then show ?thesis by (intro exI[of _ st'] conjI disjI2) (simp add: step run)
    next
      case False
      then have s1: "st1 = st" by (simp add: st1_def)
      have "st' = st \<and> (\<forall>e' \<in> set (e # rest). snd st \<le> line_dist py (snd e'))"
        using a False s1 by (auto simp: e d0_def)
      then show ?thesis by (intro exI[of _ st'] conjI disjI1) (simp_all add: step run)
    qed
  next
    assume "\<exists>i < length rest. st' = (Some (fst (rest ! i)), line_dist py (snd (rest ! i))) \<and>
        line_dist py (snd (rest ! i)) < snd st1 \<and>
        (\<forall>j < i. line_dist py (snd (rest ! i)) < line_dist py (snd (rest ! j))) \<and>
        (\<forall>e \<in> set rest. line_dist py (snd (rest ! i)) \<le> line_dist py (snd e))"
    then obtain i where i: "i < length rest"
      "st' = (Some (fst (rest ! i)), line_dist py (snd (rest ! i)))"
      "line_dist py (snd (rest ! i)) < snd st1"
      "\<forall>j < i. line_dist py (snd (rest ! i)) < line_dist py (snd (rest ! j))"
      "\<forall>e \<in> set rest. line_dist py (snd (rest ! i)) \<le> line_dist py (snd e)" by blast
    have lt0: "line_dist py (snd (rest ! i)) < d0" using i(3) st1_le(2) by simp
    have "Suc i < length (e # rest) \<and>
        st' = (Some (fst ((e # rest) ! Suc i)), line_dist py (snd ((e # rest) ! Suc i))) \<and>
        line_dist py (snd ((e # rest) ! Suc i)) < snd st \<and>
        (\<forall>j < Suc i. line_dist py (snd ((e # rest) ! Suc i)) < line_dist py (snd ((e # rest) ! j))) \<and>
        (\<forall>e' \<in> set (e # rest). line_dist py (snd ((e # rest) ! Suc i)) \<le> line_dist py (snd e'))"
      using i lt0 st1_le(1) by (auto simp: e d0_def nth_Cons less_Suc_eq_0_disj)
    then have "\<exists>i < length (e # rest). st' = (Some (fst ((e # rest) ! i)), line_dist py (snd ((e # rest) ! i))) \<and>
        line_dist py (snd ((e # rest) ! i)) < snd st \<and>
        (\<forall>j < i. line_dist py (snd ((e # rest) ! i)) < line_dist py (snd ((e # rest) ! j))) \<and>
        (\<forall>e' \<in> set (e # rest). line_dist py (snd ((e # rest) ! i)) \<le> line_dist py (snd e'))"
      by (rule exI[of _ "Suc i"])
    then show ?thesis by (intro exI[of _ st'] conjI disjI2) (simp add: step run)
  qed
qed


lemma fold_min_key:
  "f (fold (\<lambda>y b. if f y < f b then y else b) xs x) \<le> f x \<and>
   (\<forall>u \<in> set xs. f (fold (\<lambda>y b. if f y < f b then y else b) xs x) \<le> f u) \<and>
   fold (\<lambda>y b. if f y < f b then y else b) xs x \<in> insert x (set xs)"
  for f :: "'a \<Rightarrow> rat"
proof (induction xs arbitrary: x)
  case Nil
  then show ?case by simp
next
  case (Cons y ys)
  let ?b = "if f y < f x then y else x"
  from Cons.IH[of ?b] show ?case by (auto split: if_splits)
qed

lemma py_min_key_least:
  assumes "ws \<noteq> []"
  shows "\<exists>w. py_min_key f ws = Inr w \<and> w \<in> set ws \<and> (\<forall>u \<in> set ws. f w \<le> f u)"
proof (cases ws)
  case Nil
  with assms show ?thesis by simp
next
  case (Cons x xs)
  from fold_min_key[of f xs x] show ?thesis unfolding Cons by auto
qed

lemma py_index_first:
  "w \<in> set ws \<Longrightarrow> \<exists>i < length ws. py_index ws w = Inr (int i) \<and> ws ! i = w \<and> (\<forall>j < i. ws ! j \<noteq> w)"
proof (induction ws)
  case Nil
  then show ?case by simp
next
  case (Cons x xs)
  show ?case
  proof (cases "x = w")
    case True
    then show ?thesis by (intro exI[of _ 0]) simp
  next
    case False
    with Cons obtain i where i: "i < length xs" "py_index xs w = Inr (int i)" "xs ! i = w"
      "\<forall>j < i. xs ! j \<noteq> w" by auto
    show ?thesis
      using False i by (intro exI[of _ "Suc i"]) (auto simp: nth_Cons less_Suc_eq_0_disj)
  qed
qed

lemma pick_word_rule:
  assumes "lw \<noteq> []"
  shows "\<exists>w. pick_word px lw = Inr w \<and> w \<in> set lw \<and>
     (if \<exists>u \<in> set lw. px \<le> wx0 u
      then px \<le> wx0 w \<and> (\<exists>i < length lw. lw ! i = w \<and> (\<forall>j < i. wx0 (lw ! j) < px))
      else \<forall>u \<in> set lw. centre_dist px w \<le> centre_dist px u)"
proof (cases "find (\<lambda>w. px \<le> wx0 w) lw")
  case None
  then have no: "\<not> (\<exists>u \<in> set lw. px \<le> wx0 u)" by (simp add: find_None_iff)
  from py_min_key_least[OF assms, of "centre_dist px"] obtain w where
    "py_min_key (centre_dist px) lw = Inr w" "w \<in> set lw" "\<forall>u \<in> set lw. centre_dist px w \<le> centre_dist px u"
    by blast
  then show ?thesis using None no
    by (intro exI[of _ w]) (simp add: pick_word_def centre_dist_def[abs_def])
next
  case (Some w)
  then obtain i where i: "i < length lw" "px \<le> wx0 (lw ! i)" "w = lw ! i" "\<forall>j < i. \<not> px \<le> wx0 (lw ! j)"
    by (auto simp: find_Some_iff)
  then have yes: "\<exists>u \<in> set lw. px \<le> wx0 u" by (metis nth_mem)
  have "\<exists>i < length lw. lw ! i = w \<and> (\<forall>j < i. wx0 (lw ! j) < px)"
    using i by (intro exI[of _ i]) (auto simp: not_le)
  then show ?thesis using Some i yes
    by (intro exI[of _ w]) (simp add: pick_word_def)
qed

text \<open>
  What the \<^verbatim>\<open>on_pdf_click\<close> of lines 675-759 does, for every page with a word, every zoom
  other than 0 and every click less than \<open>10^18\<close> away from the middle of some line. The
  words are grouped by (block, line), the groups in the order in which their first words
  come. The group chosen is the first of those whose middle is nearest to the height of
  the click. In it, sorted by x0, the word picked is the first whose x0 is at or right of
  the click, or, when there is none, a word whose centre is nearest to the click. The menu
  opens on what \<^verbatim>\<open>glue_amount_or_name\<close> makes of the line at that word.
\<close>

theorem shadowed_click_selects:
  assumes words: "words \<noteq> []" and zoom: "zoom \<noteq> 0"
      and near: "\<exists>e \<in> set (by_line_of words). line_dist (of_int y / zoom) (snd e) < 10 ^ 18"
  shows "\<exists>i idx. let px = of_int x / zoom; py = of_int y / zoom;
                     bl = by_line_of words; g = snd (bl ! i);
                     lw = sort_key wx0 g; w = lw ! idx
          in i < length bl \<and> map fst bl = firsts [] (map line_key words) \<and>
             g = filter (\<lambda>w. line_key w = fst (bl ! i)) words \<and>
             (\<forall>e \<in> set bl. line_dist py g \<le> line_dist py (snd e)) \<and>
             (\<forall>j < i. line_dist py g < line_dist py (snd (bl ! j))) \<and>
             idx < length lw \<and>
             (if \<exists>u \<in> set lw. px \<le> wx0 u
              then px \<le> wx0 w \<and> (\<forall>j < idx. wx0 (lw ! j) < px)
              else \<forall>u \<in> set lw. centre_dist px w \<le> centre_dist px u) \<and>
             on_pdf_click_shadowed zoom words x y = Popup (glue_amount_or_name lw (int idx))"
proof -
  define px where "px = of_int x / zoom"
  define py where "py = of_int y / zoom"
  define bl where "bl = by_line_of words"
  have ne: "list_all (\<lambda>e. snd e \<noteq> []) bl"
    unfolding bl_def list_all_iff using by_line_of_group(2)[of _ _ words] by auto
  from nearest_line_scan[OF ne, of py "(None, 10 ^ 18)"] near
  obtain i where i: "i < length bl"
    "nearest_line py bl (None, 10 ^ 18) = Inr (Some (fst (bl ! i)), line_dist py (snd (bl ! i)))"
    "\<forall>j < i. line_dist py (snd (bl ! i)) < line_dist py (snd (bl ! j))"
    "\<forall>e \<in> set bl. line_dist py (snd (bl ! i)) \<le> line_dist py (snd e)"
    unfolding bl_def py_def by (fastforce simp: not_le[symmetric])
  define g where "g = snd (bl ! i)"
  have mem: "(fst (bl ! i), g) \<in> set bl" using i(1) by (simp add: g_def)
  then have gf: "g = filter (\<lambda>w. line_key w = fst (bl ! i)) words" and gne: "g \<noteq> []"
    unfolding bl_def using by_line_of_group by blast+
  have get: "by_line_get bl (Some (fst (bl ! i))) = g"
    using mem by_line_of_distinct[of words] by (simp add: by_line_get_def bl_def)
  define lw where "lw = sort_key wx0 g"
  have lwne: "lw \<noteq> []" using gne by (auto simp: lw_def dest: arg_cong[where f=length])
  from pick_word_rule[OF lwne, of px] obtain w where w: "pick_word px lw = Inr w" "w \<in> set lw"
    "if \<exists>u \<in> set lw. px \<le> wx0 u
      then px \<le> wx0 w \<and> (\<exists>i < length lw. lw ! i = w \<and> (\<forall>j < i. wx0 (lw ! j) < px))
      else \<forall>u \<in> set lw. centre_dist px w \<le> centre_dist px u" by blast
  from py_index_first[OF w(2)] obtain idx where idx: "idx < length lw" "py_index lw w = Inr (int idx)"
    "lw ! idx = w" "\<forall>j < idx. lw ! j \<noteq> w" by blast
  have snap: "if \<exists>u \<in> set lw. px \<le> wx0 u
      then px \<le> wx0 (lw ! idx) \<and> (\<forall>j < idx. wx0 (lw ! j) < px)
      else \<forall>u \<in> set lw. centre_dist px (lw ! idx) \<le> centre_dist px u"
  proof (cases "\<exists>u \<in> set lw. px \<le> wx0 u")
    case True
    with w(3) obtain i' where i': "px \<le> wx0 w" "i' < length lw" "lw ! i' = w" "\<forall>j < i'. wx0 (lw ! j) < px"
      by auto
    have "idx \<le> i'"
    proof (rule ccontr)
      assume "\<not> idx \<le> i'"
      then have "i' < idx" by simp
      with idx(4) have "lw ! i' \<noteq> w" by blast
      with i'(3) show False by simp
    qed
    with i' True show ?thesis by (simp add: idx(3))
  next
    case False
    with w(3) show ?thesis by (simp add: idx(3))
  qed
  have i2: "nearest_line py bl (None, 1000000000000000000) =
      Inr (Some (fst (bl ! i)), line_dist py (snd (bl ! i)))"
    using i(2) by simp
  have run: "on_pdf_click_shadowed zoom words x y = Popup (glue_amount_or_name lw (int idx))"
    using zoom words
    by (simp add: on_pdf_click_shadowed_def py_div_def Let_def bl_def[symmetric] py_def[symmetric]
          px_def[symmetric] i2 get lw_def[symmetric] w(1) idx(2))
  have keys: "map fst bl = firsts [] (map line_key words)"
    unfolding bl_def by (rule by_line_of_key_order)
  note least = i(4)[folded g_def] and first = i(3)[folded g_def]
  have "i < length bl \<and> map fst bl = firsts [] (map line_key words) \<and>
        g = filter (\<lambda>w. line_key w = fst (bl ! i)) words \<and>
        (\<forall>e \<in> set bl. line_dist py g \<le> line_dist py (snd e)) \<and>
        (\<forall>j < i. line_dist py g < line_dist py (snd (bl ! j))) \<and>
        idx < length lw \<and>
        (if \<exists>u \<in> set lw. px \<le> wx0 u
         then px \<le> wx0 (lw ! idx) \<and> (\<forall>j < idx. wx0 (lw ! j) < px)
         else \<forall>u \<in> set lw. centre_dist px (lw ! idx) \<le> centre_dist px u) \<and>
        on_pdf_click_shadowed zoom words x y = Popup (glue_amount_or_name lw (int idx))"
    using i(1) keys gf least first idx(1) snap run by (intro conjI)
  then show ?thesis
    unfolding Let_def px_def[symmetric] py_def[symmetric] bl_def[symmetric] g_def lw_def
    by (intro exI)
qed


theorem shadowed_click_selects_witness:
  "hash_line \<noteq> [] \<and> (3/2 :: rat) \<noteq> 0 \<and>
   (\<exists>e \<in> set (by_line_of hash_line). line_dist (of_int 22 / (3/2)) (snd e) < 10 ^ 18) \<and>
   (\<exists>i idx. on_pdf_click_shadowed (3/2) hash_line 18 22 =
      Popup (glue_amount_or_name (sort_key wx0 (snd (by_line_of hash_line ! i))) (int idx))) \<and>
   on_pdf_click_shadowed (3/2) hash_line 18 22 = Popup (str ''#2'')"
proof -
  have a: "hash_line \<noteq> []" by (simp add: hash_line_def)
  have z: "(3/2 :: rat) \<noteq> 0" by simp
  have n: "\<exists>e \<in> set (by_line_of hash_line). line_dist (of_int 22 / (3/2)) (snd e) < 10 ^ 18"
    by (simp add: by_line_of_def hash_line_def line_dist_def)
  have r: "on_pdf_click_shadowed (3/2) hash_line 18 22 = Popup (str ''#2'')"
    by (simp add: click_eval hash_line_def)
  from shadowed_click_selects[OF a z n, of 18]
  have e: "\<exists>i idx. on_pdf_click_shadowed (3/2) hash_line 18 22 =
      Popup (glue_amount_or_name (sort_key wx0 (snd (by_line_of hash_line ! i))) (int idx))"
    unfolding Let_def by blast
  from a z n e r show ?thesis by (intro conjI)
qed

end
